theory Spec2Isabelle
  imports Complex_Main
begin

section \<open>Exceptions\<close>

text \<open>
  Every exception the modelled methods can raise is a value. \<open>UserError\<close> and
  \<open>ValidationError\<close> are Odoo's user-facing errors and carry their message;
  \<open>ProgrammingError\<close> is psycopg2's; the others are Python's own.
  \<open>ValueError\<close> is what the ORM raises when a field is read on a recordset that is
  not a singleton.
\<close>

datatype error =
    UserError string
  | ValidationError string
  | ProgrammingError string
  | IndexError
  | TypeError
  | ValueError
  | UnboundLocalError

section \<open>Text\<close>

text \<open>
  A character is a Unicode code point below 256 and a text is a list of them; text with
  other code points is not a value of the model. The character classes below are
  Python's on these code points: \<open>str.isspace\<close>, which decides what \<open>str.strip\<close>
  removes (the ASCII blanks and separators, U+0085 and U+00A0); the word characters of the
  regular expression \<open>\w\<close> on a \<open>str\<close> (the ASCII letters, digits and underscore,
  and the letters, superscript digits and fractions above 127); and \<open>str.lower\<close>,
  which on these code points maps each capital letter to the letter 32 places further.
\<close>

definition is_space :: "char \<Rightarrow> bool" where
  "is_space c =
     (let n = (of_char c :: nat)
      in (9 \<le> n \<and> n \<le> 13) \<or> (28 \<le> n \<and> n \<le> 32) \<or> n = 133 \<or> n = 160)"

definition is_word_char :: "char \<Rightarrow> bool" where
  "is_word_char c =
     (let n = (of_char c :: nat)
      in (48 \<le> n \<and> n \<le> 57) \<or> (65 \<le> n \<and> n \<le> 90) \<or> n = 95 \<or> (97 \<le> n \<and> n \<le> 122)
         \<or> n = 170 \<or> n = 178 \<or> n = 179 \<or> n = 181 \<or> n = 185 \<or> n = 186
         \<or> (188 \<le> n \<and> n \<le> 190) \<or> (192 \<le> n \<and> n \<le> 214)
         \<or> (216 \<le> n \<and> n \<le> 246) \<or> 248 \<le> n)"

definition lower_char :: "char \<Rightarrow> char" where
  "lower_char c =
     (let n = (of_char c :: nat)
      in if (65 \<le> n \<and> n \<le> 90) \<or> (192 \<le> n \<and> n \<le> 214) \<or> (216 \<le> n \<and> n \<le> 222)
         then char_of (n + 32) else c)"

definition lower :: "string \<Rightarrow> string" where
  "lower s = map lower_char s"

definition lstrip :: "string \<Rightarrow> string" where
  "lstrip s = dropWhile is_space s"

definition rstrip :: "string \<Rightarrow> string" where
  "rstrip s = rev (dropWhile is_space (rev s))"

definition strip :: "string \<Rightarrow> string" where
  "strip s = rstrip (lstrip s)"

section \<open>The SQL request mixin\<close>

datatype request_state = draft | sql_valid | model_valid | ui_valid

record sql_request =
  name :: string
  query :: string
  state :: request_state
  use_external_database :: bool
  has_group_changed :: bool

definition PROHIBITED_WORDS :: "string list" where
  "PROHIBITED_WORDS =
     [''delete'', ''drop'', ''insert'', ''alter'', ''truncate'', ''execute'', ''create'',
      ''update'', ''ir_config_parameter'']"

subsection \<open>\<open>_clean_query\<close>\<close>

text \<open>
  \<^verbatim>\<open>
  query = self.query.strip()
  while query[-1] == ";":
      query = query[:-1]
  self.query = query
  \<close>
  \<open>query[-1]\<close> raises IndexError on the empty string; \<open>query[:-1]\<close> is \<open>butlast\<close>.
\<close>

function clean_loop :: "string \<Rightarrow> error + string" where
  "clean_loop q =
     (if q = [] then Inl IndexError
      else if last q = CHR '';'' then clean_loop (butlast q)
      else Inr q)"
  by pat_completeness auto
termination
  by (relation "measure length") auto

declare clean_loop.simps [simp del]

definition clean_query :: "'a sql_request_scheme \<Rightarrow> error + 'a sql_request_scheme" where
  "clean_query r =
     (case clean_loop (strip (query r)) of
        Inl e \<Rightarrow> Inl e
      | Inr q \<Rightarrow> Inr (r\<lparr>query := q\<rparr>))"

subsection \<open>\<open>_check_prohibited_words\<close>\<close>

text \<open>
  \<open>re.search(rf"\bword\b", query)\<close>, for a word made of word characters only: the
  word stands at some offset of the text, with a word boundary before and after it.
  A word boundary \<open>\b\<close> is a position where exactly one of the two neighbouring
  characters is a word character (the outside of the text counts as none).
\<close>

definition word_boundary :: "string \<Rightarrow> nat \<Rightarrow> bool" where
  "word_boundary s i =
     ((0 < i \<and> is_word_char (s ! (i - 1))) \<noteq> (i < length s \<and> is_word_char (s ! i)))"

definition match_at :: "string \<Rightarrow> string \<Rightarrow> nat \<Rightarrow> bool" where
  "match_at w s i =
     (i + length w \<le> length s \<and> word_boundary s i \<and> take (length w) (drop i s) = w
      \<and> word_boundary s (i + length w))"

definition re_search_word :: "string \<Rightarrow> string \<Rightarrow> bool" where
  "re_search_word w s = list_ex (match_at w s) [0..<Suc (length s)]"

definition unsafe_word_message :: "string \<Rightarrow> string" where
  "unsafe_word_message w =
     ''The query is not allowed because it contains unsafe word '' @ [CHR 0x27] @ w @ [CHR 0x27]"

fun check_words :: "string list \<Rightarrow> string \<Rightarrow> error + unit" where
  "check_words [] q = Inr ()"
| "check_words (w # ws) q =
     (if re_search_word w q then Inl (UserError (unsafe_word_message w))
      else check_words ws q)"

definition check_prohibited_words :: "'a sql_request_scheme \<Rightarrow> error + unit" where
  "check_prohibited_words r = check_words PROHIBITED_WORDS (lower (query r))"



section \<open>The database and the effects of a call\<close>

text \<open>
  A call is run on a world: the record the method is called on (\<open>self\<close>, a singleton
  recordset), the effects issued so far, oldest first, and the next identifier the ORM
  hands out on \<open>create\<close>. An effect is a statement handed to a cursor (the ambient
  \<open>env.cr\<close> or the external one of \<open>get_external_cursor\<close>), the closing of a cursor,
  or a call of the ORM on a record of another model, named by model and identifier.
\<close>

datatype cursor = EnvCr | ExternalCr

datatype effect =
    Execute cursor string
  | CopyExpert cursor string
  | Close cursor
  | OrmCreate string nat
  | OrmWriteField nat int string
  | OrmWriteActive string nat bool
  | OrmUnlink string nat

record 'r world =
  self :: 'r
  effects :: "effect list"
  next_id :: nat

text \<open>
  What lies outside the program is a parameter of every call: how psycopg2 merges the
  parameters into the query text (\<open>mogrify\<close>), whether the server rejects a statement
  (\<open>rejects\<close> gives the message of the \<open>ProgrammingError\<close>), the rows a statement
  leaves to fetch, the column names of \<open>env.cr.description\<close>, the base64 text of what
  \<open>COPY\<close> writes, the columns the catalog lists for the view a statement creates, the
  number \<open>float\<close> reads from the first two parts of \<open>SHOW server_version\<close> with its
  printed form, and the hexadecimal token of \<open>uuid.uuid1()\<close>. Savepoint statements
  and the statements of \<open>_log_execute\<close> outside a \<open>try\<close> are recorded as effects; a
  failure of the server on one of them aborts the whole transaction and is not modelled.
\<close>

type_synonym column = "int \<times> string \<times> string"

record server =
  mogrify :: "string \<Rightarrow> (string \<times> string) list option \<Rightarrow> string"
  rejects :: "cursor \<Rightarrow> string \<Rightarrow> string option"
  rows_of :: "cursor \<Rightarrow> string \<Rightarrow> string list list"
  colnames :: "string list"
  copy_base64 :: "cursor \<Rightarrow> string \<Rightarrow> string"
  columns_of :: "string \<Rightarrow> column list"
  minor_version :: real
  minor_version_str :: string
  uuid_hex :: string

definition emit :: "effect \<Rightarrow> 'r world \<Rightarrow> 'r world" where
  "emit e w = w\<lparr>effects := effects w @ [e]\<rparr>"

subsection \<open>Savepoints\<close>

definition get_cr_for_query :: "'a sql_request_scheme \<Rightarrow> cursor" where
  "get_cr_for_query r = (if use_external_database r then ExternalCr else EnvCr)"

definition savepoint_name :: "string \<Rightarrow> server \<Rightarrow> string" where
  "savepoint_name mname srv =
     map (\<lambda>c. if c = CHR ''.'' then CHR ''_'' else c) mname @ ''_'' @ uuid_hex srv"

definition create_savepoint :: "string \<Rightarrow> server \<Rightarrow> cursor \<Rightarrow> 'r world \<Rightarrow> string \<times> 'r world" where
  "create_savepoint mname srv cr w =
     (let rollback_name = savepoint_name mname srv
      in (rollback_name, emit (Execute cr (''SAVEPOINT '' @ rollback_name)) w))"

definition rollback_savepoint :: "string \<Rightarrow> cursor \<Rightarrow> 'r world \<Rightarrow> 'r world" where
  "rollback_savepoint rollback_name cr w =
     (let w1 = emit (Execute cr (''ROLLBACK TO SAVEPOINT '' @ rollback_name)) w
      in if cr \<noteq> EnvCr then emit (Close cr) w1 else w1)"

subsection \<open>\<open>_execute_sql_request\<close>\<close>

record exec_args =
  params :: "(string \<times> string) list option"
  mode :: string
  rollback :: bool
  arg_view_name :: "string option"
  copy_options :: string
  header :: bool

datatype result =
    ResFalse
  | ResRows "string list list"
  | ResRow "string list option"
  | ResBytes string

text \<open>Python's \<open>a in b\<close> on two strings: \<open>a\<close> stands somewhere in \<open>b\<close>.\<close>

definition str_in :: "string \<Rightarrow> string \<Rightarrow> bool" where
  "str_in a b = list_ex (\<lambda>i. take (length a) (drop i b) = a) [0..<Suc (length b)]"

definition check_materialized_view_available :: "server \<Rightarrow> 'r world \<Rightarrow> (error + unit) \<times> 'r world" where
  "check_materialized_view_available srv w =
     (let w1 = emit (Execute EnvCr ''SHOW server_version;'') w
      in if minor_version srv < 9.3 then
           (Inl (UserError (''Materialized View requires PostgreSQL 9.3 or greater but''
                  @ '' PostgreSQL '' @ minor_version_str srv @ '' is currently installed.'')), w1)
         else (Inr (), w1))"

text \<open>
  The chain that builds the statement. \<open>SQL(view_name)\<close> raises \<open>TypeError\<close> when
  no view name was given (the default \<open>False\<close>). The two placeholders of the
  \<open>CREATE\<close> statements are filled in the order of the arguments of \<open>format\<close>:
  \<open>{0}\<close> is the query and \<open>{1}\<close> the view name.
\<close>

definition build_statement ::
  "server \<Rightarrow> exec_args \<Rightarrow> string \<Rightarrow> 'r world \<Rightarrow> (error + string) \<times> 'r world" where
  "build_statement srv a q w =
     (if mode a \<in> {''fetchone'', ''fetchall''} then (Inr q, w)
      else if mode a = ''stdout'' then
        (Inr (''COPY ('' @ q @ '') TO STDOUT WITH '' @ copy_options a), w)
      else if str_in (mode a) ''view'' then
        (case arg_view_name a of
           None \<Rightarrow> (Inl TypeError, w)
         | Some vn \<Rightarrow> (Inr (''CREATE VIEW '' @ q @ '' AS ('' @ vn @ '');''), w))
      else if str_in (mode a) ''materialized_view'' then
        (case check_materialized_view_available srv w of
           (Inl e, w1) \<Rightarrow> (Inl e, w1)
         | (Inr u, w1) \<Rightarrow>
             (case arg_view_name a of
                None \<Rightarrow> (Inl TypeError, w1)
              | Some vn \<Rightarrow>
                  (Inr (''CREATE MATERIALIZED VIEW '' @ q @ '' AS ('' @ vn @ '');''), w1)))
      else (Inl (UserError (''Unimplemented mode : '' @ [CHR 0x27] @ mode a @ [CHR 0x27])), w))"

text \<open>The body of the \<open>try\<close>: the statement is run and its result fetched.\<close>

definition run_statement ::
  "server \<Rightarrow> exec_args \<Rightarrow> cursor \<Rightarrow> string \<Rightarrow> 'r world \<Rightarrow> (error + result) \<times> 'r world" where
  "run_statement srv a cr stmt w =
     (if mode a = ''stdout'' then
        (let w1 = emit (CopyExpert cr stmt) w
         in case rejects srv cr stmt of
              Some msg \<Rightarrow> (Inl (ProgrammingError msg), w1)
            | None \<Rightarrow> (Inr (ResBytes (copy_base64 srv cr stmt)), w1))
      else
        (let w1 = emit (Execute cr stmt) w
         in case rejects srv cr stmt of
              Some msg \<Rightarrow> (Inl (ProgrammingError msg), w1)
            | None \<Rightarrow>
                if mode a = ''fetchall'' then
                  (Inr (ResRows ((if header a then [colnames srv] else []) @ rows_of srv cr stmt)), w1)
                else if mode a = ''fetchone'' then
                  (Inr (ResRow (case rows_of srv cr stmt of [] \<Rightarrow> None | row # _ \<Rightarrow> Some row)), w1)
                else (Inr ResFalse, w1)))"

text \<open>
  \<open>rollback_name\<close> is assigned only under \<open>if rollback:\<close>, and the \<open>finally\<close>
  block reads it in every case: without a savepoint the read raises
  \<open>UnboundLocalError\<close>, which replaces the outcome of the \<open>try\<close> body.
\<close>

definition execute_sql_request ::
  "server \<Rightarrow> string \<Rightarrow> exec_args \<Rightarrow> ('a sql_request_scheme) world
     \<Rightarrow> (error + result) \<times> ('a sql_request_scheme) world" where
  "execute_sql_request srv mname a w =
     (if state (self w) = draft then
        (Inl (UserError ''It is not allowed to execute a not checked request.''), w)
      else
        (let rollback' = (if mode a \<in> {''view'', ''materialized_view''} then False else rollback a);
             q = mogrify srv (query (self w)) (params a)
         in case build_statement srv a q w of
              (Inl e, w1) \<Rightarrow> (Inl e, w1)
            | (Inr stmt, w1) \<Rightarrow>
                (let query_cr = get_cr_for_query (self w1)
                 in if rollback' then
                      (case create_savepoint mname srv query_cr w1 of
                         (rollback_name, w2) \<Rightarrow>
                           (case run_statement srv a query_cr stmt w2 of
                              (res, w3) \<Rightarrow> (res, rollback_savepoint rollback_name query_cr w3)))
                    else
                      (case run_statement srv a query_cr stmt w1 of
                         (res, w3) \<Rightarrow> (Inl UnboundLocalError, w3)))))"

section \<open>The SQL view\<close>

text \<open>
  Modelled from the spec: the model of a view field (\<open>bi.sql.view.field\<close>) is not
  among the sources. A field carries its sql_identifier and the attributes the data model of
  the specification lists and the view's code reads: \<open>name\<close>, \<open>sequence\<close>,
  \<open>sql_type\<close>, \<open>is_index\<close> and \<open>graph_type\<close>.
\<close>

record view_field =
  field_id :: nat
  field_name :: string
  field_sequence :: int
  sql_type :: string
  is_index :: bool
  graph_type :: "string option"

text \<open>
  \<open>bi.sql.view\<close> inherits the mixin and adds its own fields. A \<open>Many2one\<close> field
  holds the sql_identifier of the record it points to, or nothing; \<open>size\<close> is a text or
  \<open>False\<close>.
\<close>

record sql_view = sql_request +
  technical_name :: string
  is_materialized :: bool
  view_size :: "string option"
  bi_sql_view_field_ids :: "view_field list"
  model_id :: "nat option"
  rule_id :: "nat option"
  cron_id :: "nat option"
  tree_view_id :: "nat option"
  graph_view_id :: "nat option"
  pivot_view_id :: "nat option"
  search_view_id :: "nat option"
  action_id :: "nat option"
  menu_id :: "nat option"

definition view_name :: "sql_view \<Rightarrow> string" where
  "view_name v = ''x_bi_sql_view_'' @ technical_name v"

definition model_name :: "sql_view \<Rightarrow> string" where
  "model_name v = ''x_bi_sql_view.'' @ technical_name v"

definition materialized_text :: "sql_view \<Rightarrow> string" where
  "materialized_text v = (if is_materialized v then ''MATERIALIZED'' else '''')"

text \<open>psycopg2's \<open>Identifier\<close>: the name between double quotes, its own double quotes doubled.\<close>

definition sql_identifier :: "string \<Rightarrow> string" where
  "sql_identifier s =
     [CHR 0x22] @ concat (map (\<lambda>c. if c = CHR 0x22 then [c, c] else [c]) s) @ [CHR 0x22]"

definition log_execute :: "string \<Rightarrow> 'r world \<Rightarrow> 'r world" where
  "log_execute req w = emit (Execute EnvCr req) w"

subsection \<open>The constraint on indexes\<close>

definition check_index_materialized :: "sql_view \<Rightarrow> error + unit" where
  "check_index_materialized rec =
     (if \<not> is_materialized rec \<and> filter is_index (bi_sql_view_field_ids rec) \<noteq> [] then
        Inl (UserError ''You can not create indexes on non materialized views'')
      else Inr ())"

text \<open>
  Writing \<open>is_materialized\<close> through the ORM runs the constraint declared on that field
  on the written record; when the constraint raises, the write is undone.
\<close>

definition write_is_materialized :: "bool \<Rightarrow> sql_view world \<Rightarrow> (error + unit) \<times> sql_view world" where
  "write_is_materialized b w =
     (let rec = (self w)\<lparr>is_materialized := b\<rparr>
      in case check_index_materialized rec of
           Inl e \<Rightarrow> (Inl e, w)
         | Inr u \<Rightarrow> (Inr (), w\<lparr>self := rec\<rparr>))"

text \<open>
  Modelled from the spec: writing \<open>is_index\<close> on a view field is code of the missing
  field model. The specification makes \<open>is_index\<close> a materialized-only attribute and
  lets indexes exist only on a materialized view, so marking a field as indexed on a view
  that is not materialized is rejected; every other write of the flag goes through.
\<close>

definition field_write_is_index ::
  "nat \<Rightarrow> bool \<Rightarrow> sql_view world \<Rightarrow> (error + unit) \<times> sql_view world" where
  "field_write_is_index fid b w =
     (if b \<and> \<not> is_materialized (self w) then
        (Inl (UserError ''You can not create indexes on non materialized views''), w)
      else
        (Inr (), w\<lparr>self := (self w)\<lparr>bi_sql_view_field_ids :=
           map (\<lambda>x. if field_id x = fid then x\<lparr>is_index := b\<rparr> else x)
             (bi_sql_view_field_ids (self w))\<rparr>\<rparr>))"

subsection \<open>Dropping the view and the model\<close>

definition drop_view :: "sql_view world \<Rightarrow> sql_view world" where
  "drop_view w =
     (let w1 = log_execute (''DROP '' @ materialized_text (self w) @ '' VIEW IF EXISTS ''
                  @ sql_identifier (view_name (self w))) w
      in w1\<lparr>self := (self w1)\<lparr>view_size := None\<rparr>\<rparr>)"

text \<open>
  \<open>unlink\<close> on the record a \<open>Many2one\<close> field points to deletes that record; the
  field, declared without \<open>ondelete\<close>, is then empty. On an empty reference nothing
  happens.
\<close>

definition drop_model_and_fields :: "sql_view world \<Rightarrow> sql_view world" where
  "drop_model_and_fields w =
     (let w1 = (case rule_id (self w) of
                  None \<Rightarrow> w
                | Some r \<Rightarrow> (emit (OrmUnlink ''ir.rule'' r) w)\<lparr>self := (self w)\<lparr>rule_id := None\<rparr>\<rparr>)
      in case model_id (self w1) of
           None \<Rightarrow> w1
         | Some m \<Rightarrow> (emit (OrmUnlink ''ir.model'' m) w1)\<lparr>self := (self w1)\<lparr>model_id := None\<rparr>\<rparr>)"

definition unlink_ref :: "string \<Rightarrow> nat option \<Rightarrow> 'r world \<Rightarrow> 'r world" where
  "unlink_ref m ref w = (case ref of None \<Rightarrow> w | Some i \<Rightarrow> emit (OrmUnlink m i) w)"

subsection \<open>The reset buttons\<close>

text \<open>
  The buttons are called on the record of the form, a singleton: \<open>self.filtered(...)\<close>
  is that record or the empty recordset, on which every \<open>mapped\<close>, loop and \<open>write\<close>
  does nothing.
\<close>

definition button_reset_to_model_valid :: "sql_view world \<Rightarrow> sql_view world" where
  "button_reset_to_model_valid w =
     (if state (self w) = ui_valid then
        (let w1 = unlink_ref ''ir.ui.view'' (tree_view_id (self w)) w;
             w2 = unlink_ref ''ir.ui.view'' (graph_view_id (self w)) w1;
             w3 = unlink_ref ''ir.ui.view'' (pivot_view_id (self w)) w2;
             w4 = unlink_ref ''ir.ui.view'' (search_view_id (self w)) w3;
             w5 = unlink_ref ''ir.actions.act_window'' (action_id (self w)) w4;
             w6 = unlink_ref ''ir.ui.menu'' (menu_id (self w)) w5
         in w6\<lparr>self := (self w6)\<lparr>state := model_valid, tree_view_id := None,
              graph_view_id := None, pivot_view_id := None, search_view_id := None,
              action_id := None, menu_id := None\<rparr>\<rparr>)
      else w)"

definition button_reset_to_sql_valid :: "sql_view world \<Rightarrow> sql_view world" where
  "button_reset_to_sql_valid w =
     (let w1 = button_reset_to_model_valid w
      in if state (self w1) = model_valid then
           (let w2 = (if is_materialized (self w1) then drop_view w1 else w1);
                w3 = (case cron_id (self w2) of
                        None \<Rightarrow> w2
                      | Some c \<Rightarrow> emit (OrmWriteActive ''ir.cron'' c False) w2);
                w4 = drop_model_and_fields w3
            in w4\<lparr>self := (self w4)\<lparr>state := sql_valid\<rparr>\<rparr>)
         else w1)"

definition button_set_draft :: "sql_view world \<Rightarrow> sql_view world" where
  "button_set_draft w =
     (let w1 = button_reset_to_model_valid w;
          w2 = button_reset_to_sql_valid w1
      in w2\<lparr>self := (self w2)\<lparr>has_group_changed := False, state := draft\<rparr>\<rparr>)"

subsection \<open>The backing view in the database\<close>

text \<open>
  The kind of the relation that carries a given name, or nothing when the database has no
  such relation, and what an effect does to it. PostgreSQL's
  \<open>DROP MATERIALIZED VIEW IF EXISTS\<close> removes a materialized view of that name and
  \<open>DROP VIEW IF EXISTS\<close> a plain one; on no relation they do nothing, and on a relation
  of another kind they fail and leave it. What the ORM's deletion of a model record
  (\<open>ir.model\<close>) does to a relation is code outside the repository: it is the parameter
  \<open>orm_unlink_model\<close>, from the identifier of the record, the name of the relation and
  its kind. No other statement is interpreted.
\<close>

datatype relkind = PlainView | MaterializedView | Table



subsection \<open>The validation probe\<close>

definition invalid_query_message :: "string \<Rightarrow> string" where
  "invalid_query_message msg =
     ''The SQL query is not valid:'' @ [CHR 0x0A, CHR 0x0A] @ '' '' @ msg"

text \<open>
  The mixin's \<open>_check_execution\<close>, with the two methods a model overloads as
  parameters: \<open>prepare\<close> for \<open>_prepare_request_check_execution\<close> and \<open>hook\<close> for
  \<open>_hook_executed_request\<close>. A \<open>ProgrammingError\<close> of the \<open>try\<close> body becomes a
  user error; the \<open>finally\<close> block rolls back to the savepoint in every case.
\<close>

definition mixin_check_execution ::
  "('a sql_request_scheme \<Rightarrow> string)
   \<Rightarrow> (server \<Rightarrow> ('a sql_request_scheme) world \<Rightarrow> (error + 'c) \<times> ('a sql_request_scheme) world)
   \<Rightarrow> server \<Rightarrow> string \<Rightarrow> ('a sql_request_scheme) world
   \<Rightarrow> (error + 'c) \<times> ('a sql_request_scheme) world" where
  "mixin_check_execution prepare hook srv mname w =
     (let q = prepare (self w);
          query_cr = get_cr_for_query (self w)
      in case create_savepoint mname srv query_cr w of
           (rollback_name, w1) \<Rightarrow>
             (let w2 = emit (Execute query_cr q) w1
              in case rejects srv query_cr q of
                   Some msg \<Rightarrow>
                     (Inl (UserError (invalid_query_message msg)),
                      rollback_savepoint rollback_name query_cr w2)
                 | None \<Rightarrow>
                     (case hook srv w2 of
                        (Inl (ProgrammingError msg), w3) \<Rightarrow>
                          (Inl (UserError (invalid_query_message msg)),
                           rollback_savepoint rollback_name query_cr w3)
                      | (res, w3) \<Rightarrow> (res, rollback_savepoint rollback_name query_cr w3))))"

definition prepare_request_check_execution :: "sql_view \<Rightarrow> string" where
  "prepare_request_check_execution v =
     ''CREATE VIEW '' @ sql_identifier (view_name v) @ '' AS ('' @ query v @ '');''"

definition catalog_request :: "string \<Rightarrow> string" where
  "catalog_request vn =
     [CHR 0x0A] @ replicate 12 (CHR '' '') @ ''SELECT  attnum,''
     @ [CHR 0x0A] @ replicate 20 (CHR '' '') @ ''attname AS column,''
     @ [CHR 0x0A] @ replicate 20 (CHR '' '') @ ''format_type(atttypid, atttypmod) AS type''
     @ [CHR 0x0A] @ replicate 12 (CHR '' '') @ ''FROM    pg_attribute''
     @ [CHR 0x0A] @ replicate 12 (CHR '' '') @ ''WHERE   attrelid = '' @ [CHR 0x27] @ vn
        @ [CHR 0x27] @ ''::regclass''
     @ [CHR 0x0A] @ replicate 12 (CHR '' '') @ ''AND     NOT attisdropped''
     @ [CHR 0x0A] @ replicate 12 (CHR '' '') @ ''AND     attnum > 0''
     @ [CHR 0x0A] @ replicate 12 (CHR '' '') @ ''ORDER   BY attnum;''"

definition hook_executed_request ::
  "server \<Rightarrow> sql_view world \<Rightarrow> (error + column list) \<times> sql_view world" where
  "hook_executed_request srv w =
     (let req = catalog_request (sql_identifier (view_name (self w)));
          w1 = log_execute req w
      in case rejects srv EnvCr req of
           Some msg \<Rightarrow> (Inl (ProgrammingError msg), w1)
         | None \<Rightarrow> (Inr (columns_of srv (prepare_request_check_execution (self w))), w1))"

subsection \<open>Schema synchronization\<close>

text \<open>
  Modelled from the spec: \<open>create\<close> of the missing field model. The new field has the
  sql_identifier the ORM hands out and the three values given; it is not an index and has no
  graph type.
\<close>

definition new_view_field :: "nat \<Rightarrow> column \<Rightarrow> view_field" where
  "new_view_field i c =
     \<lparr>field_id = i, field_name = fst (snd c), field_sequence = fst c,
        sql_type = snd (snd c), is_index = False, graph_type = None\<rparr>"

definition no_column_message :: string where
  "no_column_message =
     ''No Column was found.'' @ [CHR 0x0A] @ ''Columns name should be prefixed by ''
       @ [CHR 0x27] @ ''x_'' @ [CHR 0x27] @ ''.''"

text \<open>
  One turn of the loop over the columns. \<open>existing_field.id\<close> raises \<open>ValueError\<close>
  when several fields carry the name of the column. The write reaches the field by its
  sql_identifier; a created field joins the collection of the view.
\<close>

definition sync_column ::
  "column \<Rightarrow> nat list \<Rightarrow> sql_view world \<Rightarrow> (error + nat list) \<times> sql_view world" where
  "sync_column c field_ids w =
     (let existing_field =
            filter (\<lambda>x. field_name x = fst (snd c)) (bi_sql_view_field_ids (self w))
      in if existing_field \<noteq> [] then
           (case existing_field of
              [f] \<Rightarrow>
                (let w1 = emit (OrmWriteField (field_id f) (fst c) (snd (snd c))) w
                 in (Inr (field_ids @ [field_id f]),
                     w1\<lparr>self := (self w1)\<lparr>bi_sql_view_field_ids :=
                        map (\<lambda>x. if field_id x = field_id f
                                  then x\<lparr>field_sequence := fst c, sql_type := snd (snd c)\<rparr>
                                  else x)
                          (bi_sql_view_field_ids (self w1))\<rparr>\<rparr>))
            | _ \<Rightarrow> (Inl ValueError, w))
         else if take 2 (fst (snd c)) = ''x_'' then
           (let i = next_id w;
                w1 = emit (OrmCreate ''bi.sql.view.field'' i) w
            in (Inr (field_ids @ [i]),
                w1\<lparr>self := (self w1)\<lparr>bi_sql_view_field_ids :=
                       bi_sql_view_field_ids (self w1) @ [new_view_field i c]\<rparr>,
                   next_id := Suc i\<rparr>))
         else (Inr field_ids, w))"

fun sync_columns ::
  "column list \<Rightarrow> nat list \<Rightarrow> sql_view world \<Rightarrow> (error + nat list) \<times> sql_view world" where
  "sync_columns [] field_ids w = (Inr field_ids, w)"
| "sync_columns (c # cs) field_ids w =
     (case sync_column c field_ids w of
        (Inl e, w1) \<Rightarrow> (Inl e, w1)
      | (Inr field_ids1, w1) \<Rightarrow> sync_columns cs field_ids1 w1)"

definition unlink_obsolete :: "nat list \<Rightarrow> sql_view world \<Rightarrow> sql_view world" where
  "unlink_obsolete field_ids w =
     (let obsolete = filter (\<lambda>x. field_id x \<notin> set field_ids) (bi_sql_view_field_ids (self w))
      in w\<lparr>self := (self w)\<lparr>bi_sql_view_field_ids :=
                filter (\<lambda>x. field_id x \<in> set field_ids) (bi_sql_view_field_ids (self w))\<rparr>,
            effects := effects w @ map (\<lambda>x. OrmUnlink ''bi.sql.view.field'' (field_id x)) obsolete\<rparr>)"

text \<open>What the view's \<open>_check_execution\<close> does with the columns the probe returned.\<close>

definition reconcile ::
  "column list \<Rightarrow> sql_view world \<Rightarrow> (error + column list) \<times> sql_view world" where
  "reconcile columns w =
     (case sync_columns columns [] w of
        (Inl e, w1) \<Rightarrow> (Inl e, w1)
      | (Inr field_ids, w1) \<Rightarrow>
          (let w2 = unlink_obsolete field_ids w1
           in if bi_sql_view_field_ids (self w2) = [] then
                (Inl (UserError no_column_message), w2)
              else (Inr columns, w2)))"

definition check_execution ::
  "server \<Rightarrow> sql_view world \<Rightarrow> (error + column list) \<times> sql_view world" where
  "check_execution srv w =
     (case mixin_check_execution prepare_request_check_execution hook_executed_request
             srv ''bi.sql.view'' w of
        (Inl e, w1) \<Rightarrow> (Inl e, w1)
      | (Inr columns, w1) \<Rightarrow> reconcile columns w1)"

text \<open>
  \<open>button_validate_sql_expression\<close> on a view: the three checks are enabled (the class
  keeps the defaults of the mixin), then the state is set.
\<close>

definition button_validate_sql_expression ::
  "server \<Rightarrow> sql_view world \<Rightarrow> (error + unit) \<times> sql_view world" where
  "button_validate_sql_expression srv w =
     (case clean_query (self w) of
        Inl e \<Rightarrow> (Inl e, w)
      | Inr item \<Rightarrow>
          (let w1 = w\<lparr>self := item\<rparr>
           in case check_prohibited_words (self w1) of
                Inl e \<Rightarrow> (Inl e, w1)
              | Inr u \<Rightarrow>
                  (case check_execution srv w1 of
                     (Inl e, w2) \<Rightarrow> (Inl e, w2)
                   | (Inr columns, w2) \<Rightarrow>
                       (Inr (), w2\<lparr>self := (self w2)\<lparr>state := sql_valid\<rparr>\<rparr>))))"

subsection \<open>What the synchronization carries over\<close>

text \<open>
  A notion for the proofs about the loop: between two of its states every field is still
  there under its name and identifier, the list of kept identifiers and the effects have
  only grown, and every field either was there before or has a name that starts with
  \<open>x_\<close> and was created by the ORM.
\<close>

definition carried :: "nat list \<Rightarrow> sql_view world \<Rightarrow> nat list \<Rightarrow> sql_view world \<Rightarrow> bool" where
  "carried ids w ids' w' =
     ((\<forall>f \<in> set (bi_sql_view_field_ids (self w)).
         \<exists>f' \<in> set (bi_sql_view_field_ids (self w')).
           field_name f' = field_name f \<and> field_id f' = field_id f)
      \<and> set ids \<subseteq> set ids'
      \<and> set (effects w) \<subseteq> set (effects w')
      \<and> (\<forall>f' \<in> set (bi_sql_view_field_ids (self w')).
            (\<exists>f \<in> set (bi_sql_view_field_ids (self w)).
               field_name f = field_name f' \<and> field_id f = field_id f')
            \<or> (take 2 (field_name f') = ''x_''
                \<and> OrmCreate ''bi.sql.view.field'' (field_id f') \<in> set (effects w'))))"


subsection \<open>Running the synchronization twice\<close>

text \<open>
  The field records of a view as the ORM keeps them: no two of them share an identifier,
  and every identifier was handed out before the next one.
\<close>

definition wf_fields :: "sql_view world \<Rightarrow> bool" where
  "wf_fields w =
     (distinct (map field_id (bi_sql_view_field_ids (self w)))
      \<and> (\<forall>f \<in> set (bi_sql_view_field_ids (self w)). field_id f < next_id w))"

text \<open>
  Notions for the proofs about running the synchronization twice. \<open>overwrite\<close> is the
  write one column makes on a field of its name; a collection of fields is settled for a
  list of columns when each column finds one field of its name, or none and no prefix
  \<open>x_\<close>; \<open>matched_ids\<close> lists the identifiers of the fields whose name is the name
  of a column; \<open>synced\<close> is what holds after the loop has run over the columns; and
  \<open>field_writes\<close> says that a list of effects holds nothing but writes of a column on
  a field of its name.
\<close>

definition overwrite :: "column \<Rightarrow> view_field \<Rightarrow> view_field" where
  "overwrite c f =
     (if field_name f = fst (snd c) then f\<lparr>field_sequence := fst c, sql_type := snd (snd c)\<rparr>
      else f)"

definition settled :: "column list \<Rightarrow> view_field list \<Rightarrow> bool" where
  "settled cols fs =
     (\<forall>c \<in> set cols.
        length (filter (\<lambda>x. field_name x = fst (snd c)) fs) = 1
        \<or> (filter (\<lambda>x. field_name x = fst (snd c)) fs = [] \<and> take 2 (fst (snd c)) \<noteq> ''x_''))"

definition matched_ids :: "column list \<Rightarrow> view_field list \<Rightarrow> nat list" where
  "matched_ids cols fs =
     map field_id (filter (\<lambda>x. field_name x \<in> (\<lambda>c. fst (snd c)) ` set cols) fs)"

definition synced :: "column list \<Rightarrow> nat list \<Rightarrow> nat list \<Rightarrow> sql_view world \<Rightarrow> bool" where
  "synced cols ids0 ids w =
     (wf_fields w
      \<and> settled cols (bi_sql_view_field_ids (self w))
      \<and> (\<forall>f \<in> set (bi_sql_view_field_ids (self w)). fold overwrite cols f = f)
      \<and> set ids = set ids0 \<union> set (matched_ids cols (bi_sql_view_field_ids (self w))))"

definition field_writes :: "column list \<Rightarrow> view_field list \<Rightarrow> effect list \<Rightarrow> bool" where
  "field_writes cols fs es =
     (\<forall>e \<in> set es. \<exists>c \<in> set cols. \<exists>f \<in> set fs.
        field_name f = fst (snd c) \<and> e = OrmWriteField (field_id f) (fst c) (snd (snd c)))"

subsection \<open>The states a view can reach\<close>

text \<open>
  A record the ORM has accepted satisfies the constraint declared on it; from there the
  view moves by the writes of the two flags, by validation (whatever its outcome) and by
  the reset buttons.
\<close>

inductive reachable :: "server \<Rightarrow> sql_view world \<Rightarrow> bool" for srv :: server where
  accepted: "check_index_materialized (self w) = Inr () \<Longrightarrow> reachable srv w"
| written_materialized:
    "reachable srv w \<Longrightarrow> write_is_materialized b w = (r, w') \<Longrightarrow> reachable srv w'"
| written_index:
    "reachable srv w \<Longrightarrow> field_write_is_index fid b w = (r, w') \<Longrightarrow> reachable srv w'"
| validated:
    "reachable srv w \<Longrightarrow> button_validate_sql_expression srv w = (r, w') \<Longrightarrow> reachable srv w'"
| reset_to_model_valid:
    "reachable srv w \<Longrightarrow> reachable srv (button_reset_to_model_valid w)"
| reset_to_sql_valid:
    "reachable srv w \<Longrightarrow> reachable srv (button_reset_to_sql_valid w)"
| set_draft:
    "reachable srv w \<Longrightarrow> reachable srv (button_set_draft w)"

section \<open>Verification: query sanitization\<close>

lemma clean_loop_closed:
  "clean_loop q =
     (if \<forall>c \<in> set q. c = CHR '';'' then Inl IndexError
      else Inr (rev (dropWhile (\<lambda>c. c = CHR '';'') (rev q))))"
proof (induction q rule: rev_induct)
  case Nil
  show ?case by (simp add: clean_loop.simps)
next
  case (snoc x xs)
  show ?case
  proof (cases "x = CHR '';''")
    case True
    then show ?thesis using snoc by (subst clean_loop.simps) simp
  next
    case False
    then show ?thesis by (subst clean_loop.simps) auto
  qed
qed

lemma clean_loop_no_trailing:
  "clean_loop q = Inr q' \<Longrightarrow> q' \<noteq> [] \<and> last q' \<noteq> CHR '';''"
proof (induction q rule: clean_loop.induct)
  case (1 q)
  then show ?case by (subst (asm) (2) clean_loop.simps) (auto split: if_splits)
qed

text \<open>
  C10. \<open>_clean_query\<close> is partial: when the query, stripped of surrounding whitespace
  (U+0085 and U+00A0 included), is empty or made of \<open>;\<close> characters only, the loop reads the last character of an
  empty string and raises \<open>IndexError\<close>; on every other query it ends normally and
  stores the stripped query without its trailing \<open>;\<close> characters.
\<close>

theorem clean_query_partial:
  "clean_query r =
     (if \<forall>c \<in> set (strip (query r)). c = CHR '';'' then Inl IndexError
      else Inr (r\<lparr>query := rev (dropWhile (\<lambda>c. c = CHR '';'') (rev (strip (query r))))\<rparr>))"
  by (simp add: clean_query_def clean_loop_closed)

theorem clean_query_partial_witness:
  "clean_query \<lparr>name = ''n'', query = '' ;; '', state = draft,
        use_external_database = False, has_group_changed = False\<rparr> = Inl IndexError
   \<and> clean_query \<lparr>name = ''n'', query = [CHR '';'', CHR 0xA0], state = draft,
        use_external_database = False, has_group_changed = False\<rparr> = Inl IndexError
   \<and> clean_query \<lparr>name = ''n'', query = '' SELECT 1 AS x_a;; '', state = draft,
        use_external_database = False, has_group_changed = False\<rparr>
     = Inr \<lparr>name = ''n'', query = ''SELECT 1 AS x_a'', state = draft,
        use_external_database = False, has_group_changed = False\<rparr>"
  using clean_query_partial [of "\<lparr>name = ''n'', query = '' ;; '', state = draft,
        use_external_database = False, has_group_changed = False\<rparr>"]
    clean_query_partial [of "\<lparr>name = ''n'', query = [CHR '';'', CHR 0xA0], state = draft,
        use_external_database = False, has_group_changed = False\<rparr>"]
    clean_query_partial [of "\<lparr>name = ''n'', query = '' SELECT 1 AS x_a;; '', state = draft,
        use_external_database = False, has_group_changed = False\<rparr>"]
  by (simp add: strip_def rstrip_def lstrip_def is_space_def)

text \<open>
  C4. The query \<open>;\<close> ends in a \<open>;\<close> character, and \<open>_clean_query\<close> produces no
  query for it: the loop strips the only character and then reads the last character of
  the empty string.
\<close>

theorem clean_query_semicolon_only:
  "clean_query \<lparr>name = ''n'', query = '';'', state = draft,
        use_external_database = False, has_group_changed = False\<rparr> = Inl IndexError"
  by (simp add: clean_query_def strip_def rstrip_def lstrip_def is_space_def clean_loop.simps)

text \<open>
  Whenever \<open>_clean_query\<close> does return, the stored query is not empty and does not
  end in \<open>;\<close>.
\<close>

lemma clean_query_no_trailing_semicolon:
  "clean_query r = Inr r' \<Longrightarrow> query r' \<noteq> [] \<and> last (query r') \<noteq> CHR '';''"
  by (auto simp: clean_query_def split: sum.splits dest: clean_loop_no_trailing)

section \<open>Verification: prohibited words\<close>

lemma is_word_char_lower [simp]: "is_word_char (lower_char c) = is_word_char c"
proof -
  have "(of_char c :: nat) < 256" by simp
  then show ?thesis
    by (auto simp: is_word_char_def lower_char_def Let_def)
qed












section \<open>Verification: executing a request\<close>

text \<open>
  C6. On a request in state \<open>draft\<close>, \<open>_execute_sql_request\<close> raises the user error
  whatever its arguments are, and leaves the world as it was: no statement reaches a
  cursor and no field of the record changes.
\<close>

theorem execute_draft_rejected:
  "state (self w) = draft \<Longrightarrow>
     execute_sql_request srv mname a w =
       (Inl (UserError ''It is not allowed to execute a not checked request.''), w)"
  by (simp add: execute_sql_request_def)

theorem execute_draft_rejected_witness:
  "execute_sql_request
     \<lparr>mogrify = (\<lambda>q p. q), rejects = (\<lambda>cr s. None), rows_of = (\<lambda>cr s. []),
        colnames = [], copy_base64 = (\<lambda>cr s. []), columns_of = (\<lambda>s. []),
        minor_version = 14, minor_version_str = ''14.0'', uuid_hex = ''00ff''\<rparr>
     ''bi.sql.view''
     \<lparr>params = None, mode = ''view'', rollback = False, arg_view_name = Some ''v'',
        copy_options = ''CSV'', header = True\<rparr>
     \<lparr>self = \<lparr>name = ''n'', query = ''SELECT 1 AS x_a'', state = draft,
          use_external_database = False, has_group_changed = False\<rparr>,
        effects = [], next_id = 1\<rparr>
   = (Inl (UserError ''It is not allowed to execute a not checked request.''),
      \<lparr>self = \<lparr>name = ''n'', query = ''SELECT 1 AS x_a'', state = draft,
          use_external_database = False, has_group_changed = False\<rparr>,
        effects = [], next_id = 1\<rparr>)"
  by (rule execute_draft_rejected) simp

text \<open>
  C1. In mode \<open>view\<close> the statement handed to the cursor has the query where the name of
  the view belongs and the name of the view where the query belongs: for the query
  \<open>SELECT 1 AS x_a\<close> and the view name \<open>v\<close> it is
  \<open>CREATE VIEW SELECT 1 AS x_a AS (v);\<close>. No savepoint is created, whatever the caller's
  rollback argument, and the \<open>finally\<close> block then fails on the unassigned name.
\<close>

theorem execute_view_statement:
  "execute_sql_request srv ''bi.sql.view''
     \<lparr>params = None, mode = ''view'', rollback = True, arg_view_name = Some ''v'',
        copy_options = ''CSV'', header = False\<rparr>
     \<lparr>self = \<lparr>name = ''n'', query = q, state = sql_valid,
          use_external_database = False, has_group_changed = False\<rparr>,
        effects = [], next_id = 1\<rparr>
   = (Inl UnboundLocalError,
      \<lparr>self = \<lparr>name = ''n'', query = q, state = sql_valid,
          use_external_database = False, has_group_changed = False\<rparr>,
        effects = [Execute EnvCr (''CREATE VIEW '' @ mogrify srv q None @ '' AS (v);'')],
        next_id = 1\<rparr>)"
  by (simp add: execute_sql_request_def build_statement_def str_in_def run_statement_def
      emit_def get_cr_for_query_def Let_def split: option.splits)

text \<open>
  C5. The mode \<open>vie\<close> is none of the five implemented modes, yet it is a part of the text
  \<open>view\<close>, which is what the chain tests: a \<open>CREATE VIEW\<close> statement is run between
  a savepoint and its rollback, and no user error about the mode is raised.
\<close>

theorem execute_unknown_mode_runs:
  "effects (snd (execute_sql_request srv ''bi.sql.view''
     \<lparr>params = None, mode = ''vie'', rollback = True, arg_view_name = Some ''v'',
        copy_options = ''CSV'', header = False\<rparr>
     \<lparr>self = \<lparr>name = ''n'', query = q, state = sql_valid,
          use_external_database = False, has_group_changed = False\<rparr>,
        effects = [], next_id = 1\<rparr>))
   = [Execute EnvCr (''SAVEPOINT bi_sql_view_'' @ uuid_hex srv),
      Execute EnvCr (''CREATE VIEW '' @ mogrify srv q None @ '' AS (v);''),
      Execute EnvCr (''ROLLBACK TO SAVEPOINT bi_sql_view_'' @ uuid_hex srv)]
   \<and> (\<forall>m. fst (execute_sql_request srv ''bi.sql.view''
     \<lparr>params = None, mode = ''vie'', rollback = True, arg_view_name = Some ''v'',
        copy_options = ''CSV'', header = False\<rparr>
     \<lparr>self = \<lparr>name = ''n'', query = q, state = sql_valid,
          use_external_database = False, has_group_changed = False\<rparr>,
        effects = [], next_id = 1\<rparr>) \<noteq> Inl (UserError m))"
  by (simp add: execute_sql_request_def build_statement_def str_in_def run_statement_def
      emit_def get_cr_for_query_def create_savepoint_def rollback_savepoint_def
      savepoint_name_def Let_def split: option.splits)

section \<open>Verification: the reset to \<open>sql_valid\<close>\<close>








section \<open>Verification: the validation probe\<close>

lemma sync_column_error:
  "sync_column c ids w = (Inl e, w') \<Longrightarrow> e = ValueError \<and> w' = w"
  by (auto simp: sync_column_def Let_def emit_def split: if_splits list.splits)

lemma sync_columns_error:
  "sync_columns cs ids w = (Inl e, w') \<Longrightarrow> e = ValueError"
proof (induction cs arbitrary: ids w)
  case Nil
  then show ?case by simp
next
  case (Cons c cs)
  obtain r1 w1 where s: "sync_column c ids w = (r1, w1)" by (cases "sync_column c ids w")
  show ?case
  proof (cases r1)
    case (Inl e1)
    with s Cons.prems have "sync_column c ids w = (Inl e, w')" by simp
    then show ?thesis by (simp add: sync_column_error)
  next
    case (Inr ids1)
    with s Cons.prems have "sync_columns cs ids1 w1 = (Inl e, w')" by simp
    then show ?thesis by (rule Cons.IH)
  qed
qed

lemma carried_refl: "carried ids w ids w"
  by (auto simp: carried_def)

lemma carried_trans:
  assumes "carried ids w ids1 w1" "carried ids1 w1 ids2 w2"
  shows "carried ids w ids2 w2"
  unfolding carried_def
proof (intro conjI ballI)
  fix f assume "f \<in> set (bi_sql_view_field_ids (self w))"
  with assms(1) obtain f1 where f1: "f1 \<in> set (bi_sql_view_field_ids (self w1))"
    "field_name f1 = field_name f" "field_id f1 = field_id f"
    unfolding carried_def by blast
  with assms(2) obtain f2 where "f2 \<in> set (bi_sql_view_field_ids (self w2))"
    "field_name f2 = field_name f1" "field_id f2 = field_id f1"
    unfolding carried_def by blast
  with f1 show "\<exists>f' \<in> set (bi_sql_view_field_ids (self w2)).
           field_name f' = field_name f \<and> field_id f' = field_id f"
    by auto
next
  show "set ids \<subseteq> set ids2" using assms unfolding carried_def by blast
next
  show "set (effects w) \<subseteq> set (effects w2)" using assms unfolding carried_def by blast
next
  fix f' assume f': "f' \<in> set (bi_sql_view_field_ids (self w2))"
  with assms(2) consider
    (old) f1 where "f1 \<in> set (bi_sql_view_field_ids (self w1))"
        "field_name f1 = field_name f'" "field_id f1 = field_id f'"
    | (new) "take 2 (field_name f') = ''x_''"
        "OrmCreate ''bi.sql.view.field'' (field_id f') \<in> set (effects w2)"
    unfolding carried_def by blast
  then show "(\<exists>f \<in> set (bi_sql_view_field_ids (self w)).
               field_name f = field_name f' \<and> field_id f = field_id f')
            \<or> (take 2 (field_name f') = ''x_''
                \<and> OrmCreate ''bi.sql.view.field'' (field_id f') \<in> set (effects w2))"
  proof cases
    case old
    with assms(1) consider
      (old2) f0 where "f0 \<in> set (bi_sql_view_field_ids (self w))"
          "field_name f0 = field_name f1" "field_id f0 = field_id f1"
      | (new2) "take 2 (field_name f1) = ''x_''"
          "OrmCreate ''bi.sql.view.field'' (field_id f1) \<in> set (effects w1)"
      unfolding carried_def by blast
    then show ?thesis
    proof cases
      case old2
      with old show ?thesis by auto
    next
      case new2
      moreover have "set (effects w1) \<subseteq> set (effects w2)"
        using assms(2) unfolding carried_def by blast
      ultimately show ?thesis using old by auto
    qed
  next
    case new
    then show ?thesis by simp
  qed
qed

lemma carriedI:
  assumes "\<And>f. f \<in> set (bi_sql_view_field_ids (self w)) \<Longrightarrow>
         \<exists>f' \<in> set (bi_sql_view_field_ids (self w')).
           field_name f' = field_name f \<and> field_id f' = field_id f"
    and "set ids \<subseteq> set ids'"
    and "set (effects w) \<subseteq> set (effects w')"
    and "\<And>f'. f' \<in> set (bi_sql_view_field_ids (self w')) \<Longrightarrow>
            (\<exists>f \<in> set (bi_sql_view_field_ids (self w)).
               field_name f = field_name f' \<and> field_id f = field_id f')
            \<or> (take 2 (field_name f') = ''x_''
                \<and> OrmCreate ''bi.sql.view.field'' (field_id f') \<in> set (effects w'))"
  shows "carried ids w ids' w'"
  unfolding carried_def using assms by blast

lemma sync_column_one_carried:
  assumes one: "filter (\<lambda>x. field_name x = fst (snd c)) (bi_sql_view_field_ids (self w)) = [f]"
    and s: "sync_column c ids w = (Inr ids', w')"
  shows "carried ids w ids' w'"
    and "\<exists>f' \<in> set (bi_sql_view_field_ids (self w')).
           field_name f' = fst (snd c) \<and> field_id f' \<in> set ids'"
proof -
  let ?F = "bi_sql_view_field_ids (self w)"
  let ?g = "\<lambda>x. if field_id x = field_id f
               then x\<lparr>field_sequence := fst c, sql_type := snd (snd c)\<rparr> else x"
  from one s have ids': "ids' = ids @ [field_id f]"
    and F': "bi_sql_view_field_ids (self w') = map ?g ?F"
    and E': "effects w' = effects w @ [OrmWriteField (field_id f) (fst c) (snd (snd c))]"
    by (auto simp: sync_column_def Let_def emit_def)
  from one have "f \<in> set (filter (\<lambda>x. field_name x = fst (snd c)) ?F)" by simp
  then have fin: "f \<in> set ?F" and fn: "field_name f = fst (snd c)" by simp_all
  have gn: "\<And>x. field_name (?g x) = field_name x" by simp
  have gi: "\<And>x. field_id (?g x) = field_id x" by simp
  show "carried ids w ids' w'"
  proof (rule carriedI)
    fix x assume "x \<in> set ?F"
    then have "?g x \<in> set (bi_sql_view_field_ids (self w'))" unfolding F' by (rule imageI [of x "set ?F" ?g, unfolded set_map [symmetric]])
    then show "\<exists>f' \<in> set (bi_sql_view_field_ids (self w')).
           field_name f' = field_name x \<and> field_id f' = field_id x"
      using gn gi by blast
  next
    show "set ids \<subseteq> set ids'" unfolding ids' by auto
  next
    show "set (effects w) \<subseteq> set (effects w')" unfolding E' by auto
  next
    fix f' assume "f' \<in> set (bi_sql_view_field_ids (self w'))"
    then obtain x where "x \<in> set ?F" "f' = ?g x" unfolding F' set_map by blast
    then have "x \<in> set ?F \<and> field_name x = field_name f' \<and> field_id x = field_id f'"
      using gn gi by simp
    then show "(\<exists>f \<in> set ?F. field_name f = field_name f' \<and> field_id f = field_id f')
            \<or> (take 2 (field_name f') = ''x_''
                \<and> OrmCreate ''bi.sql.view.field'' (field_id f') \<in> set (effects w'))"
      by blast
  qed
  have "?g f \<in> set (bi_sql_view_field_ids (self w'))" unfolding F' set_map using fin by (rule imageI)
  moreover have "field_name (?g f) = fst (snd c)" using fn by simp
  moreover have "field_id (?g f) \<in> set ids'" unfolding ids' by simp
  ultimately show "\<exists>f' \<in> set (bi_sql_view_field_ids (self w')).
           field_name f' = fst (snd c) \<and> field_id f' \<in> set ids'"
    by blast
qed

lemma sync_column_create_carried:
  assumes none: "filter (\<lambda>x. field_name x = fst (snd c)) (bi_sql_view_field_ids (self w)) = []"
    and px: "take 2 (fst (snd c)) = ''x_''"
    and s: "sync_column c ids w = (Inr ids', w')"
  shows "carried ids w ids' w'"
    and "\<exists>f' \<in> set (bi_sql_view_field_ids (self w')).
           field_name f' = fst (snd c) \<and> field_id f' \<in> set ids'"
proof -
  let ?F = "bi_sql_view_field_ids (self w)"
  let ?n = "new_view_field (next_id w) c"
  from none px s have ids': "ids' = ids @ [next_id w]"
    and F': "bi_sql_view_field_ids (self w') = ?F @ [?n]"
    and E': "effects w' = effects w @ [OrmCreate ''bi.sql.view.field'' (next_id w)]"
    by (auto simp: sync_column_def Let_def emit_def)
  have nn: "field_name ?n = fst (snd c)" and ni: "field_id ?n = next_id w"
    by (simp_all add: new_view_field_def)
  show "carried ids w ids' w'"
  proof (rule carriedI)
    fix x assume "x \<in> set ?F"
    then have "x \<in> set (bi_sql_view_field_ids (self w'))" unfolding F' by simp
    then show "\<exists>f' \<in> set (bi_sql_view_field_ids (self w')).
           field_name f' = field_name x \<and> field_id f' = field_id x"
      by blast
  next
    show "set ids \<subseteq> set ids'" unfolding ids' by auto
  next
    show "set (effects w) \<subseteq> set (effects w')" unfolding E' by auto
  next
    fix f' assume "f' \<in> set (bi_sql_view_field_ids (self w'))"
    then have "f' \<in> set ?F \<or> f' = ?n" unfolding F' by auto
    then show "(\<exists>f \<in> set ?F. field_name f = field_name f' \<and> field_id f = field_id f')
            \<or> (take 2 (field_name f') = ''x_''
                \<and> OrmCreate ''bi.sql.view.field'' (field_id f') \<in> set (effects w'))"
    proof
      assume "f' \<in> set ?F"
      then show ?thesis by blast
    next
      assume "f' = ?n"
      then show ?thesis using nn ni px unfolding E' by simp
    qed
  qed
  have "?n \<in> set (bi_sql_view_field_ids (self w'))" unfolding F' by simp
  moreover have "field_id ?n \<in> set ids'" unfolding ids' ni by simp
  ultimately show "\<exists>f' \<in> set (bi_sql_view_field_ids (self w')).
           field_name f' = fst (snd c) \<and> field_id f' \<in> set ids'"
    using nn by blast
qed

lemma sync_column_carried:
  assumes s: "sync_column c ids w = (Inr ids', w')"
  shows "carried ids w ids' w'"
    and "take 2 (fst (snd c)) = ''x_''
           \<or> (\<exists>f \<in> set (bi_sql_view_field_ids (self w)). field_name f = fst (snd c)) \<Longrightarrow>
         \<exists>f' \<in> set (bi_sql_view_field_ids (self w')).
           field_name f' = fst (snd c) \<and> field_id f' \<in> set ids'"
proof -
  let ?F = "bi_sql_view_field_ids (self w)"
  let ?ex = "filter (\<lambda>x. field_name x = fst (snd c)) ?F"
  let ?goal = "take 2 (fst (snd c)) = ''x_'' \<or> (\<exists>f \<in> set ?F. field_name f = fst (snd c)) \<longrightarrow>
     (\<exists>f' \<in> set (bi_sql_view_field_ids (self w')).
           field_name f' = fst (snd c) \<and> field_id f' \<in> set ids')"
  consider (one) f where "?ex = [f]" | (many) a b rest where "?ex = a # b # rest"
    | (create) "?ex = []" "take 2 (fst (snd c)) = ''x_''"
    | (skip) "?ex = []" "take 2 (fst (snd c)) \<noteq> ''x_''"
    by (cases ?ex; cases "tl ?ex") auto
  then have "carried ids w ids' w' \<and> ?goal"
  proof cases
    case one
    from sync_column_one_carried [OF one s] show ?thesis by blast
  next
    case many
    with s show ?thesis by (simp add: sync_column_def Let_def)
  next
    case create
    from sync_column_create_carried [OF create s] show ?thesis by blast
  next
    case skip
    with s have "ids' = ids" "w' = w" by (auto simp: sync_column_def Let_def)
    moreover from skip have "\<not> (\<exists>f \<in> set ?F. field_name f = fst (snd c))"
      by (simp add: filter_empty_conv)
    ultimately show ?thesis using skip by (simp add: carried_refl)
  qed
  then show "carried ids w ids' w'"
    and "take 2 (fst (snd c)) = ''x_''
           \<or> (\<exists>f \<in> set (bi_sql_view_field_ids (self w)). field_name f = fst (snd c)) \<Longrightarrow>
         \<exists>f' \<in> set (bi_sql_view_field_ids (self w')).
           field_name f' = fst (snd c) \<and> field_id f' \<in> set ids'"
    by blast+
qed


lemma sync_columns_carried:
  "sync_columns cs ids w = (Inr ids', w') \<Longrightarrow>
     carried ids w ids' w' \<and>
     (\<forall>c \<in> set cs.
        take 2 (fst (snd c)) = ''x_''
          \<or> (\<exists>f \<in> set (bi_sql_view_field_ids (self w)). field_name f = fst (snd c)) \<longrightarrow>
        (\<exists>f' \<in> set (bi_sql_view_field_ids (self w')).
           field_name f' = fst (snd c) \<and> field_id f' \<in> set ids'))"
proof (induction cs arbitrary: ids w)
  case Nil
  then show ?case by (simp add: carried_refl)
next
  case (Cons c cs)
  obtain r1 w1 where s: "sync_column c ids w = (r1, w1)" by (cases "sync_column c ids w")
  show ?case
  proof (cases r1)
    case (Inl e)
    with s Cons.prems show ?thesis by simp
  next
    case (Inr ids1)
    with s have s1: "sync_column c ids w = (Inr ids1, w1)" by simp
    with Cons.prems have rest: "sync_columns cs ids1 w1 = (Inr ids', w')" by simp
    note step = sync_column_carried [OF s1]
    note ih = Cons.IH [OF rest]
    from ih have c2: "carried ids1 w1 ids' w'" by blast
    have car: "carried ids w ids' w'" using step(1) c2 by (rule carried_trans)
    have "\<exists>f' \<in> set (bi_sql_view_field_ids (self w')).
           field_name f' = fst (snd d) \<and> field_id f' \<in> set ids'"
      if d: "d \<in> set (c # cs)"
        and pre: "take 2 (fst (snd d)) = ''x_''
          \<or> (\<exists>f \<in> set (bi_sql_view_field_ids (self w)). field_name f = fst (snd d))"
      for d
    proof (cases "fst (snd d) = fst (snd c)")
      case True
      with pre step(2) obtain f1 where f1: "f1 \<in> set (bi_sql_view_field_ids (self w1))"
        "field_name f1 = fst (snd d)" "field_id f1 \<in> set ids1"
        by auto
      with c2 obtain f2 where "f2 \<in> set (bi_sql_view_field_ids (self w'))"
        "field_name f2 = field_name f1" "field_id f2 = field_id f1"
        unfolding carried_def by blast
      moreover from c2 have "set ids1 \<subseteq> set ids'" unfolding carried_def by blast
      ultimately show ?thesis using f1 by (metis subsetD)
    next
      case False
      with d have din: "d \<in> set cs" by auto
      from pre have "take 2 (fst (snd d)) = ''x_''
          \<or> (\<exists>f \<in> set (bi_sql_view_field_ids (self w1)). field_name f = fst (snd d))"
      proof
        assume "take 2 (fst (snd d)) = ''x_''"
        then show ?thesis by simp
      next
        assume "\<exists>f \<in> set (bi_sql_view_field_ids (self w)). field_name f = fst (snd d)"
        then obtain f where "f \<in> set (bi_sql_view_field_ids (self w))"
          "field_name f = fst (snd d)" by blast
        with step(1) obtain f1 where "f1 \<in> set (bi_sql_view_field_ids (self w1))"
          "field_name f1 = field_name f" unfolding carried_def by blast
        then show ?thesis using \<open>field_name f = fst (snd d)\<close> by auto
      qed
      with ih din show ?thesis by blast
    qed
    with car show ?thesis by blast
  qed
qed

lemma unlink_obsolete_fields:
  "bi_sql_view_field_ids (self (unlink_obsolete ids w)) =
     filter (\<lambda>x. field_id x \<in> set ids) (bi_sql_view_field_ids (self w))"
  by (simp add: unlink_obsolete_def Let_def)

lemma reconcile_creates_prefixed:
  assumes rc: "reconcile columns w = (r, w')"
    and ok: "r \<noteq> Inl ValueError"
    and c: "c \<in> set columns"
    and un: "\<forall>f \<in> set (bi_sql_view_field_ids (self w)). field_name f \<noteq> fst (snd c)"
  shows "(\<exists>f' \<in> set (bi_sql_view_field_ids (self w')).
            field_name f' = fst (snd c)
            \<and> OrmCreate ''bi.sql.view.field'' (field_id f') \<in> set (effects w'))
           \<longleftrightarrow> take 2 (fst (snd c)) = ''x_''"
proof -
  obtain r1 w1 where s: "sync_columns columns [] w = (r1, w1)"
    by (cases "sync_columns columns [] w")
  show ?thesis
  proof (cases r1)
    case (Inl e)
    with s have "e = ValueError" by (simp add: sync_columns_error)
    with Inl s rc ok show ?thesis by (simp add: reconcile_def)
  next
    case (Inr ids)
    with s rc have w': "w' = unlink_obsolete ids w1"
      by (auto simp: reconcile_def Let_def split: if_splits)
    from Inr s have s1: "sync_columns columns [] w = (Inr ids, w1)" by simp
    note car = sync_columns_carried [OF s1]
    have F': "bi_sql_view_field_ids (self w') =
        filter (\<lambda>x. field_id x \<in> set ids) (bi_sql_view_field_ids (self w1))"
      unfolding w' by (rule unlink_obsolete_fields)
    have E': "set (effects w1) \<subseteq> set (effects w')"
      unfolding w' by (simp add: unlink_obsolete_def Let_def)
    have origin: "(\<exists>f \<in> set (bi_sql_view_field_ids (self w)).
               field_name f = field_name f' \<and> field_id f = field_id f')
            \<or> (take 2 (field_name f') = ''x_''
                \<and> OrmCreate ''bi.sql.view.field'' (field_id f') \<in> set (effects w1))"
      if "f' \<in> set (bi_sql_view_field_ids (self w1))" for f'
      using car that unfolding carried_def by blast
    show ?thesis
    proof
      assume "\<exists>f' \<in> set (bi_sql_view_field_ids (self w')).
            field_name f' = fst (snd c)
            \<and> OrmCreate ''bi.sql.view.field'' (field_id f') \<in> set (effects w')"
      then obtain f' where "f' \<in> set (bi_sql_view_field_ids (self w1))"
        and n: "field_name f' = fst (snd c)" unfolding F' by auto
      with origin [of f'] un show "take 2 (fst (snd c)) = ''x_''" by auto
    next
      assume "take 2 (fst (snd c)) = ''x_''"
      with car c obtain f' where f': "f' \<in> set (bi_sql_view_field_ids (self w1))"
        "field_name f' = fst (snd c)" "field_id f' \<in> set ids" by blast
      with origin [of f'] un
      have "OrmCreate ''bi.sql.view.field'' (field_id f') \<in> set (effects w1)" by auto
      with E' have "OrmCreate ''bi.sql.view.field'' (field_id f') \<in> set (effects w')" by blast
      moreover from f' have "f' \<in> set (bi_sql_view_field_ids (self w'))" unfolding F' by simp
      ultimately show "\<exists>f' \<in> set (bi_sql_view_field_ids (self w')).
            field_name f' = fst (snd c)
            \<and> OrmCreate ''bi.sql.view.field'' (field_id f') \<in> set (effects w')"
        using f'(2) by blast
    qed
  qed
qed

lemma mixin_check_execution_self:
  "mixin_check_execution prepare_request_check_execution hook_executed_request srv m w = (r, w')
     \<Longrightarrow> self w' = self w"
  by (auto simp: mixin_check_execution_def hook_executed_request_def create_savepoint_def
      rollback_savepoint_def log_execute_def emit_def Let_def
      split: option.splits prod.splits sum.splits error.splits if_splits)

lemma sync_column_ValueError_fields:
  "sync_column c ids w = (Inl e, w') \<Longrightarrow> bi_sql_view_field_ids (self w') \<noteq> []"
  by (auto simp: sync_column_def Let_def emit_def split: if_splits list.splits)

lemma sync_columns_error_fields:
  "sync_columns cs ids w = (Inl e, w') \<Longrightarrow> bi_sql_view_field_ids (self w') \<noteq> []"
proof (induction cs arbitrary: ids w)
  case Nil
  then show ?case by simp
next
  case (Cons c cs)
  show ?case
  proof (cases "sync_column c ids w")
    case (Pair r w1)
    show ?thesis
    proof (cases r)
      case (Inl e1)
      with Pair Cons.prems have "sync_column c ids w = (Inl e, w')" by simp
      then show ?thesis by (rule sync_column_ValueError_fields)
    next
      case (Inr ids1)
      with Pair Cons.prems have "sync_columns cs ids1 w1 = (Inl e, w')" by simp
      then show ?thesis by (rule Cons.IH)
    qed
  qed
qed

lemma reconcile_empty_raises:
  "reconcile columns w = (r, w') \<Longrightarrow> bi_sql_view_field_ids (self w') = [] \<Longrightarrow>
     r = Inl (UserError no_column_message)"
proof -
  assume rc: "reconcile columns w = (r, w')" and emp: "bi_sql_view_field_ids (self w') = []"
  obtain r1 w1 where s: "sync_columns columns [] w = (r1, w1)" by (cases "sync_columns columns [] w")
  show ?thesis
  proof (cases r1)
    case (Inl e)
    with s rc have "w' = w1" by (simp add: reconcile_def)
    with s Inl emp sync_columns_error_fields show ?thesis by blast
  next
    case (Inr ids)
    with s rc emp show ?thesis
      by (auto simp: reconcile_def Let_def split: if_splits)
  qed
qed



text \<open>
  C7. Whenever the probe has returned its columns and the loop has not been stopped by
  fields that share a name, a column that matches no field of the view has, when
  \<open>_check_execution\<close> is over, a field of its name created by the ORM exactly when its
  name starts with \<open>x_\<close>. And when \<open>_check_execution\<close> leaves the view without any
  field, it raises the user error \<open>No Column was found\<close>: the query
  \<open>SELECT 1 AS a\<close> on a view without fields is such a case, for the probe and for the
  validation button.
\<close>

theorem check_execution_creates_prefixed_columns:
  assumes probe: "mixin_check_execution prepare_request_check_execution hook_executed_request
          srv ''bi.sql.view'' w = (Inr columns, w1)"
    and ce: "check_execution srv w = (r, w')"
  shows "(r \<noteq> Inl ValueError \<longrightarrow>
          (\<forall>c \<in> set columns.
             (\<forall>f \<in> set (bi_sql_view_field_ids (self w)). field_name f \<noteq> fst (snd c)) \<longrightarrow>
             ((\<exists>f' \<in> set (bi_sql_view_field_ids (self w')).
                 field_name f' = fst (snd c)
                 \<and> OrmCreate ''bi.sql.view.field'' (field_id f') \<in> set (effects w'))
              \<longleftrightarrow> take 2 (fst (snd c)) = ''x_'')))
       \<and> (bi_sql_view_field_ids (self w') = [] \<longrightarrow> r = Inl (UserError no_column_message))"
proof -
  from probe ce have rc: "reconcile columns w1 = (r, w')" by (simp add: check_execution_def)
  from probe have same: "self w1 = self w" by (rule mixin_check_execution_self)
  have "(\<exists>f' \<in> set (bi_sql_view_field_ids (self w')).
                 field_name f' = fst (snd c)
                 \<and> OrmCreate ''bi.sql.view.field'' (field_id f') \<in> set (effects w'))
              \<longleftrightarrow> take 2 (fst (snd c)) = ''x_''"
    if "r \<noteq> Inl ValueError" "c \<in> set columns"
      "\<forall>f \<in> set (bi_sql_view_field_ids (self w)). field_name f \<noteq> fst (snd c)" for c
    using reconcile_creates_prefixed [OF rc that(1) that(2)] that(3) same by simp
  moreover have "bi_sql_view_field_ids (self w') = [] \<longrightarrow> r = Inl (UserError no_column_message)"
    using reconcile_empty_raises [OF rc] by blast
  ultimately show ?thesis by blast
qed

lemmas probe_defs = mixin_check_execution_def hook_executed_request_def
  prepare_request_check_execution_def create_savepoint_def rollback_savepoint_def
  savepoint_name_def get_cr_for_query_def log_execute_def emit_def Let_def

theorem check_execution_creates_prefixed_columns_witness:
  "fst (check_execution
     \<lparr>mogrify = (\<lambda>q p. q), rejects = (\<lambda>cr s. None), rows_of = (\<lambda>cr s. []),
        colnames = [], copy_base64 = (\<lambda>cr s. []), columns_of = (\<lambda>s. [(1, ''x_a'', ''integer''), (2, ''b'', ''text'')]),
        minor_version = 14, minor_version_str = ''14.0'', uuid_hex = ''00ff''\<rparr>
     \<lparr>self = \<lparr>name = ''n'', query = ''SELECT 1 AS x_a, 2 AS b'', state = draft,
          use_external_database = False, has_group_changed = False,
          technical_name = ''t'', is_materialized = True, view_size = None,
          bi_sql_view_field_ids = [], model_id = None, rule_id = None, cron_id = None,
          tree_view_id = None, graph_view_id = None, pivot_view_id = None,
          search_view_id = None, action_id = None, menu_id = None\<rparr>,
        effects = [], next_id = 10\<rparr>) = Inr [(1, ''x_a'', ''integer''), (2, ''b'', ''text'')]
   \<and> bi_sql_view_field_ids (self (snd (check_execution
     \<lparr>mogrify = (\<lambda>q p. q), rejects = (\<lambda>cr s. None), rows_of = (\<lambda>cr s. []),
        colnames = [], copy_base64 = (\<lambda>cr s. []), columns_of = (\<lambda>s. [(1, ''x_a'', ''integer''), (2, ''b'', ''text'')]),
        minor_version = 14, minor_version_str = ''14.0'', uuid_hex = ''00ff''\<rparr>
     \<lparr>self = \<lparr>name = ''n'', query = ''SELECT 1 AS x_a, 2 AS b'', state = draft,
          use_external_database = False, has_group_changed = False,
          technical_name = ''t'', is_materialized = True, view_size = None,
          bi_sql_view_field_ids = [], model_id = None, rule_id = None, cron_id = None,
          tree_view_id = None, graph_view_id = None, pivot_view_id = None,
          search_view_id = None, action_id = None, menu_id = None\<rparr>,
        effects = [], next_id = 10\<rparr>)))
     = [\<lparr>field_id = 10, field_name = ''x_a'', field_sequence = 1, sql_type = ''integer'',
          is_index = False, graph_type = None\<rparr>]
   \<and> \<not> (\<exists>f' \<in> set (bi_sql_view_field_ids (self (snd (check_execution
     \<lparr>mogrify = (\<lambda>q p. q), rejects = (\<lambda>cr s. None), rows_of = (\<lambda>cr s. []),
        colnames = [], copy_base64 = (\<lambda>cr s. []), columns_of = (\<lambda>s. [(1, ''x_a'', ''integer''), (2, ''b'', ''text'')]),
        minor_version = 14, minor_version_str = ''14.0'', uuid_hex = ''00ff''\<rparr>
     \<lparr>self = \<lparr>name = ''n'', query = ''SELECT 1 AS x_a, 2 AS b'', state = draft,
          use_external_database = False, has_group_changed = False,
          technical_name = ''t'', is_materialized = True, view_size = None,
          bi_sql_view_field_ids = [], model_id = None, rule_id = None, cron_id = None,
          tree_view_id = None, graph_view_id = None, pivot_view_id = None,
          search_view_id = None, action_id = None, menu_id = None\<rparr>,
        effects = [], next_id = 10\<rparr>)))). field_name f' = ''b''
       \<and> OrmCreate ''bi.sql.view.field'' (field_id f') \<in> set (effects (snd (check_execution
     \<lparr>mogrify = (\<lambda>q p. q), rejects = (\<lambda>cr s. None), rows_of = (\<lambda>cr s. []),
        colnames = [], copy_base64 = (\<lambda>cr s. []), columns_of = (\<lambda>s. [(1, ''x_a'', ''integer''), (2, ''b'', ''text'')]),
        minor_version = 14, minor_version_str = ''14.0'', uuid_hex = ''00ff''\<rparr>
     \<lparr>self = \<lparr>name = ''n'', query = ''SELECT 1 AS x_a, 2 AS b'', state = draft,
          use_external_database = False, has_group_changed = False,
          technical_name = ''t'', is_materialized = True, view_size = None,
          bi_sql_view_field_ids = [], model_id = None, rule_id = None, cron_id = None,
          tree_view_id = None, graph_view_id = None, pivot_view_id = None,
          search_view_id = None, action_id = None, menu_id = None\<rparr>,
        effects = [], next_id = 10\<rparr>))))
   \<and> fst (check_execution
     \<lparr>mogrify = (\<lambda>q p. q), rejects = (\<lambda>cr s. None), rows_of = (\<lambda>cr s. []),
        colnames = [], copy_base64 = (\<lambda>cr s. []), columns_of = (\<lambda>s. [(1, ''a'', ''integer'')]),
        minor_version = 14, minor_version_str = ''14.0'', uuid_hex = ''00ff''\<rparr>
     \<lparr>self = \<lparr>name = ''n'', query = ''SELECT 1 AS a'', state = draft,
          use_external_database = False, has_group_changed = False,
          technical_name = ''t'', is_materialized = True, view_size = None,
          bi_sql_view_field_ids = [], model_id = None, rule_id = None, cron_id = None,
          tree_view_id = None, graph_view_id = None, pivot_view_id = None,
          search_view_id = None, action_id = None, menu_id = None\<rparr>,
        effects = [], next_id = 10\<rparr>) = Inl (UserError no_column_message)
   \<and> fst (button_validate_sql_expression
     \<lparr>mogrify = (\<lambda>q p. q), rejects = (\<lambda>cr s. None), rows_of = (\<lambda>cr s. []),
        colnames = [], copy_base64 = (\<lambda>cr s. []), columns_of = (\<lambda>s. [(1, ''a'', ''integer'')]),
        minor_version = 14, minor_version_str = ''14.0'', uuid_hex = ''00ff''\<rparr>
     \<lparr>self = \<lparr>name = ''n'', query = ''SELECT 1 AS a'', state = draft,
          use_external_database = False, has_group_changed = False,
          technical_name = ''t'', is_materialized = True, view_size = None,
          bi_sql_view_field_ids = [], model_id = None, rule_id = None, cron_id = None,
          tree_view_id = None, graph_view_id = None, pivot_view_id = None,
          search_view_id = None, action_id = None, menu_id = None\<rparr>,
        effects = [], next_id = 10\<rparr>) = Inl (UserError no_column_message)"
proof -
  let ?S = "\<lparr>mogrify = (\<lambda>q p. q), rejects = (\<lambda>cr s. None), rows_of = (\<lambda>cr s. []),
        colnames = [], copy_base64 = (\<lambda>cr s. []), columns_of = (\<lambda>s. [(1, ''x_a'', ''integer''), (2, ''b'', ''text'')]),
        minor_version = 14, minor_version_str = ''14.0'', uuid_hex = ''00ff''\<rparr>"
  let ?W = "\<lparr>self = \<lparr>name = ''n'', query = ''SELECT 1 AS x_a, 2 AS b'', state = draft,
          use_external_database = False, has_group_changed = False,
          technical_name = ''t'', is_materialized = True, view_size = None,
          bi_sql_view_field_ids = [], model_id = None, rule_id = None, cron_id = None,
          tree_view_id = None, graph_view_id = None, pivot_view_id = None,
          search_view_id = None, action_id = None, menu_id = None\<rparr>,
        effects = [], next_id = 10\<rparr>"
  let ?S1 = "\<lparr>mogrify = (\<lambda>q p. q), rejects = (\<lambda>cr s. None), rows_of = (\<lambda>cr s. []),
        colnames = [], copy_base64 = (\<lambda>cr s. []), columns_of = (\<lambda>s. [(1, ''a'', ''integer'')]),
        minor_version = 14, minor_version_str = ''14.0'', uuid_hex = ''00ff''\<rparr>"
  let ?V1 = "\<lparr>name = ''n'', query = ''SELECT 1 AS a'', state = draft,
          use_external_database = False, has_group_changed = False,
          technical_name = ''t'', is_materialized = True, view_size = None,
          bi_sql_view_field_ids = [], model_id = None, rule_id = None, cron_id = None,
          tree_view_id = None, graph_view_id = None, pivot_view_id = None,
          search_view_id = None, action_id = None, menu_id = None\<rparr>"
  let ?W1 = "\<lparr>self = ?V1, effects = [], next_id = 10\<rparr>"
  let ?cols = "[(1, ''x_a'', ''integer''), (2, ''b'', ''text'')] :: column list"
  have probe: "mixin_check_execution prepare_request_check_execution hook_executed_request
          ?S ''bi.sql.view'' ?W
        = (Inr ?cols, snd (mixin_check_execution prepare_request_check_execution
             hook_executed_request ?S ''bi.sql.view'' ?W))"
    by (simp add: probe_defs)
  have res: "fst (check_execution ?S ?W) = Inr ?cols"
    by (simp add: check_execution_def probe_defs reconcile_def sync_column_def
        unlink_obsolete_def new_view_field_def)
  have fields: "bi_sql_view_field_ids (self (snd (check_execution ?S ?W)))
     = [\<lparr>field_id = 10, field_name = ''x_a'', field_sequence = 1, sql_type = ''integer'',
          is_index = False, graph_type = None\<rparr>]"
    by (simp add: check_execution_def probe_defs reconcile_def sync_column_def
        unlink_obsolete_def new_view_field_def)
  have pair: "check_execution ?S ?W = (fst (check_execution ?S ?W), snd (check_execution ?S ?W))"
    by simp
  note inst = check_execution_creates_prefixed_columns [OF probe pair]
  from res have ok: "fst (check_execution ?S ?W) \<noteq> Inl ValueError" by simp
  have cin: "(2, ''b'', ''text'') \<in> set ?cols" by simp
  have un: "\<forall>f \<in> set (bi_sql_view_field_ids (self ?W)). field_name f \<noteq> fst (snd (2 :: int, ''b'', ''text''))"
    by simp
  from inst ok cin un
  have "(\<exists>f' \<in> set (bi_sql_view_field_ids (self (snd (check_execution ?S ?W)))).
       field_name f' = fst (snd (2 :: int, ''b'', ''text''))
       \<and> OrmCreate ''bi.sql.view.field'' (field_id f') \<in> set (effects (snd (check_execution ?S ?W))))
     \<longleftrightarrow> take 2 (fst (snd (2 :: int, ''b'', ''text''))) = ''x_''"
    by blast
  then have nb: "\<not> (\<exists>f' \<in> set (bi_sql_view_field_ids (self (snd (check_execution ?S ?W)))).
       field_name f' = ''b''
       \<and> OrmCreate ''bi.sql.view.field'' (field_id f') \<in> set (effects (snd (check_execution ?S ?W))))"
    by simp
  have probe1: "mixin_check_execution prepare_request_check_execution hook_executed_request
          ?S1 ''bi.sql.view'' ?W1
        = (Inr [(1, ''a'', ''integer'')], snd (mixin_check_execution
             prepare_request_check_execution hook_executed_request ?S1 ''bi.sql.view'' ?W1))"
    by (simp add: probe_defs)
  have emp: "bi_sql_view_field_ids (self (snd (check_execution ?S1 ?W1))) = []"
    by (simp add: check_execution_def probe_defs reconcile_def sync_column_def
        unlink_obsolete_def)
  have pair1: "check_execution ?S1 ?W1
      = (fst (check_execution ?S1 ?W1), snd (check_execution ?S1 ?W1))"
    by simp
  have b: "fst (check_execution ?S1 ?W1) = Inl (UserError no_column_message)"
    using check_execution_creates_prefixed_columns [OF probe1 pair1] emp by blast
  have cq: "clean_query ?V1 = Inr ?V1"
    by (simp add: clean_query_def strip_def lstrip_def rstrip_def is_space_def
        clean_loop.simps)
  have pw: "check_prohibited_words ?V1 = Inr ()"
    by code_simp
  obtain w2 where ce: "check_execution ?S1 ?W1 = (Inl (UserError no_column_message), w2)"
    using b by (cases "check_execution ?S1 ?W1") auto
  have c: "fst (button_validate_sql_expression ?S1 ?W1) = Inl (UserError no_column_message)"
    unfolding button_validate_sql_expression_def
    by (simp add: cq pw ce del: clean_loop.simps)
  from res fields nb b c show ?thesis by blast
qed

section \<open>Verification: indexes and materialization\<close>

lemma check_index_materialized_iff:
  "check_index_materialized v = Inr () \<longleftrightarrow>
     ((\<exists>f \<in> set (bi_sql_view_field_ids v). is_index f) \<longrightarrow> is_materialized v)"
  by (auto simp: check_index_materialized_def filter_empty_conv)

lemma index_after_write:
  "(\<exists>f \<in> set (map (\<lambda>x. if P x then x\<lparr>field_sequence := a, sql_type := b\<rparr> else x) fs).
       is_index f) \<longleftrightarrow> (\<exists>f \<in> set fs. is_index f)"
  by (induction fs) auto

lemma sync_column_index:
  assumes "sync_column c ids w = (r, w')"
  shows "is_materialized (self w') = is_materialized (self w)"
    and "\<exists>f \<in> set (bi_sql_view_field_ids (self w')). is_index f \<Longrightarrow>
         \<exists>f \<in> set (bi_sql_view_field_ids (self w)). is_index f"
proof -
  let ?ex = "filter (\<lambda>x. field_name x = fst (snd c)) (bi_sql_view_field_ids (self w))"
  consider (one) f where "?ex = [f]" | (many) "?ex \<noteq> []" "\<nexists>f. ?ex = [f]"
    | (create) "?ex = []" "take 2 (fst (snd c)) = ''x_''"
    | (skip) "?ex = []" "take 2 (fst (snd c)) \<noteq> ''x_''"
    by (cases ?ex) auto
  then have "is_materialized (self w') = is_materialized (self w) \<and>
    ((\<exists>f \<in> set (bi_sql_view_field_ids (self w')). is_index f) \<longrightarrow>
     (\<exists>f \<in> set (bi_sql_view_field_ids (self w)). is_index f))"
  proof cases
    case one
    with assms have "w' = (emit (OrmWriteField (field_id f) (fst c) (snd (snd c))) w)
        \<lparr>self := (self w)\<lparr>bi_sql_view_field_ids :=
            map (\<lambda>x. if field_id x = field_id f
                      then x\<lparr>field_sequence := fst c, sql_type := snd (snd c)\<rparr> else x)
              (bi_sql_view_field_ids (self w))\<rparr>\<rparr>"
      by (simp add: sync_column_def Let_def emit_def)
    then show ?thesis by (auto simp: emit_def)
  next
    case many
    with assms have "w' = w"
      by (cases ?ex rule: list.exhaust; cases "tl ?ex")
         (auto simp: sync_column_def Let_def split: list.splits)
    then show ?thesis by simp
  next
    case create
    with assms show ?thesis
      by (auto simp: sync_column_def Let_def emit_def new_view_field_def)
  next
    case skip
    with assms show ?thesis by (auto simp: sync_column_def Let_def)
  qed
  then show "is_materialized (self w') = is_materialized (self w)"
    and "\<exists>f \<in> set (bi_sql_view_field_ids (self w')). is_index f \<Longrightarrow>
         \<exists>f \<in> set (bi_sql_view_field_ids (self w)). is_index f"
    by blast+
qed

lemma sync_columns_index:
  "sync_columns cs ids w = (r, w') \<Longrightarrow>
     is_materialized (self w') = is_materialized (self w) \<and>
     ((\<exists>f \<in> set (bi_sql_view_field_ids (self w')). is_index f) \<longrightarrow>
      (\<exists>f \<in> set (bi_sql_view_field_ids (self w)). is_index f))"
proof (induction cs arbitrary: ids w)
  case Nil
  then show ?case by simp
next
  case (Cons c cs)
  obtain r1 w1 where s: "sync_column c ids w = (r1, w1)" by (cases "sync_column c ids w")
  show ?case
  proof (cases r1)
    case (Inl e)
    with s Cons.prems have "w' = w1" by simp
    with s sync_column_index [OF s] show ?thesis by blast
  next
    case (Inr ids1)
    with s Cons.prems have "sync_columns cs ids1 w1 = (r, w')" by simp
    from Cons.IH [OF this] sync_column_index [OF s] show ?thesis by blast
  qed
qed

lemma unlink_obsolete_index:
  "is_materialized (self (unlink_obsolete ids w)) = is_materialized (self w) \<and>
   ((\<exists>f \<in> set (bi_sql_view_field_ids (self (unlink_obsolete ids w))). is_index f) \<longrightarrow>
    (\<exists>f \<in> set (bi_sql_view_field_ids (self w)). is_index f))"
  by (auto simp: unlink_obsolete_def Let_def)

lemma reconcile_constraint:
  assumes "reconcile cols w = (r, w')" "check_index_materialized (self w) = Inr ()"
  shows "check_index_materialized (self w') = Inr ()"
proof -
  obtain r1 w1 where s: "sync_columns cols [] w = (r1, w1)" by (cases "sync_columns cols [] w")
  note a = sync_columns_index [OF s]
  show ?thesis
  proof (cases r1)
    case (Inl e)
    with s assms(1) have "w' = w1" by (simp add: reconcile_def)
    with a assms(2) show ?thesis unfolding check_index_materialized_iff by blast
  next
    case (Inr ids)
    with s assms(1) have "w' = unlink_obsolete ids w1"
      by (auto simp: reconcile_def Let_def split: if_splits)
    with a assms(2) unlink_obsolete_index [of ids w1] show ?thesis
      unfolding check_index_materialized_iff by blast
  qed
qed

lemma check_execution_constraint:
  assumes "check_execution srv w = (r, w')" "check_index_materialized (self w) = Inr ()"
  shows "check_index_materialized (self w') = Inr ()"
proof -
  obtain r1 w1 where m: "mixin_check_execution prepare_request_check_execution
      hook_executed_request srv ''bi.sql.view'' w = (r1, w1)"
    by (cases "mixin_check_execution prepare_request_check_execution
      hook_executed_request srv ''bi.sql.view'' w")
  from mixin_check_execution_self [OF m] assms(2)
  have c1: "check_index_materialized (self w1) = Inr ()" by simp
  show ?thesis
  proof (cases r1)
    case (Inl e)
    with m assms(1) have "w' = w1" by (simp add: check_execution_def)
    with c1 show ?thesis by simp
  next
    case (Inr cols)
    with m assms(1) have "reconcile cols w1 = (r, w')" by (simp add: check_execution_def)
    then show ?thesis using c1 by (rule reconcile_constraint)
  qed
qed

lemma clean_query_constraint:
  "clean_query v = Inr v' \<Longrightarrow> check_index_materialized v' = check_index_materialized v"
  by (auto simp: clean_query_def check_index_materialized_def split: sum.splits)

lemma button_validate_constraint:
  assumes "button_validate_sql_expression srv w = (r, w')"
    "check_index_materialized (self w) = Inr ()"
  shows "check_index_materialized (self w') = Inr ()"
proof (cases "clean_query (self w)")
  case (Inl e)
  with assms show ?thesis by (simp add: button_validate_sql_expression_def)
next
  case (Inr item)
  let ?w1 = "w\<lparr>self := item\<rparr>"
  from Inr assms(2) have c1: "check_index_materialized (self ?w1) = Inr ()"
    by (simp add: clean_query_constraint)
  show ?thesis
  proof (cases "check_prohibited_words item")
    case (Inl e)
    with Inr assms(1) have "w' = ?w1" by (simp add: button_validate_sql_expression_def)
    with c1 show ?thesis by simp
  next
    case u: (Inr u)
    obtain r2 w2 where ce: "check_execution srv ?w1 = (r2, w2)"
      by (cases "check_execution srv ?w1")
    from check_execution_constraint [OF ce c1]
    have c2: "check_index_materialized (self w2) = Inr ()" .
    show ?thesis
    proof (cases r2)
      case (Inl e)
      with Inr u ce assms(1) have "w' = w2" by (simp add: button_validate_sql_expression_def)
      with c2 show ?thesis by simp
    next
      case cols: (Inr cols)
      with Inr u ce assms(1) have "w' = w2\<lparr>self := (self w2)\<lparr>state := sql_valid\<rparr>\<rparr>"
        by (simp add: button_validate_sql_expression_def)
      with c2 show ?thesis by (simp add: check_index_materialized_def)
    qed
  qed
qed

lemma write_is_materialized_constraint:
  assumes "write_is_materialized b w = (r, w')" "check_index_materialized (self w) = Inr ()"
  shows "check_index_materialized (self w') = Inr ()"
  using assms
  by (auto simp: write_is_materialized_def Let_def split: sum.splits)

lemma field_write_is_index_constraint:
  assumes "field_write_is_index fid b w = (r, w')" "check_index_materialized (self w) = Inr ()"
  shows "check_index_materialized (self w') = Inr ()"
  using assms
  by (auto simp: field_write_is_index_def check_index_materialized_iff split: if_splits)


lemma unlink_ref_self: "self (unlink_ref m ref w) = self w"
  by (simp add: unlink_ref_def emit_def split: option.splits)

lemma button_reset_to_model_valid_constraint:
  "check_index_materialized (self (button_reset_to_model_valid w)) =
     check_index_materialized (self w)"
  by (simp add: button_reset_to_model_valid_def Let_def unlink_ref_self
      check_index_materialized_def)

lemma drop_view_constraint:
  "check_index_materialized (self (drop_view w)) = check_index_materialized (self w)"
  by (simp add: drop_view_def Let_def log_execute_def emit_def check_index_materialized_def)

lemma drop_model_and_fields_constraint:
  "check_index_materialized (self (drop_model_and_fields w)) = check_index_materialized (self w)"
  by (simp add: drop_model_and_fields_def Let_def emit_def check_index_materialized_def
      split: option.splits)

lemma emit_constraint:
  "check_index_materialized (self (emit e w)) = check_index_materialized (self w)"
  by (simp add: emit_def)

lemma state_update_constraint:
  "check_index_materialized (v\<lparr>state := s\<rparr>) = check_index_materialized v"
  by (simp add: check_index_materialized_def)

lemma button_reset_to_sql_valid_constraint:
  "check_index_materialized (self (button_reset_to_sql_valid w)) =
     check_index_materialized (self w)"
  unfolding button_reset_to_sql_valid_def Let_def
  by (simp add: state_update_constraint drop_model_and_fields_constraint emit_constraint
      drop_view_constraint button_reset_to_model_valid_constraint split: option.splits)

lemma button_set_draft_constraint:
  "check_index_materialized (self (button_set_draft w)) = check_index_materialized (self w)"
proof -
  have "check_index_materialized (self (button_set_draft w)) =
      check_index_materialized (self (button_reset_to_sql_valid (button_reset_to_model_valid w)))"
    by (simp add: button_set_draft_def Let_def check_index_materialized_def)
  then show ?thesis
    by (simp add: button_reset_to_sql_valid_constraint button_reset_to_model_valid_constraint)
qed

lemma reachable_constraint:
  "reachable srv w \<Longrightarrow> check_index_materialized (self w) = Inr ()"
proof (induction rule: reachable.induct)
  case (accepted w)
  then show ?case .
next
  case (written_materialized w b r w')
  then show ?case by (blast intro: write_is_materialized_constraint)
next
  case (written_index w fid b r w')
  then show ?case by (blast intro: field_write_is_index_constraint)
next
  case (validated w r w')
  then show ?case by (blast intro: button_validate_constraint)
next
  case (reset_to_model_valid w)
  then show ?case by (simp add: button_reset_to_model_valid_constraint)
next
  case (reset_to_sql_valid w)
  then show ?case by (simp add: button_reset_to_sql_valid_constraint)
next
  case (set_draft w)
  then show ?case by (simp add: button_set_draft_constraint)
qed

text \<open>
  C9. On every state a view can reach, a field flagged \<open>is_index\<close> exists only when
  the view is materialized. Writing \<open>is_materialized = False\<close> on a view that has an
  indexed field is rejected by the constraint of the view, and the world is left as it
  was; marking a field as indexed on a view that is not materialized is rejected by the
  field model, as the specification has it.
\<close>

theorem index_only_when_materialized:
  "(reachable srv w \<longrightarrow>
      (\<exists>f \<in> set (bi_sql_view_field_ids (self w)). is_index f) \<longrightarrow> is_materialized (self w))
   \<and> ((\<exists>f \<in> set (bi_sql_view_field_ids (self w)). is_index f) \<longrightarrow>
        write_is_materialized False w =
          (Inl (UserError ''You can not create indexes on non materialized views''), w))
   \<and> (\<not> is_materialized (self w) \<longrightarrow>
        field_write_is_index fid True w =
          (Inl (UserError ''You can not create indexes on non materialized views''), w))"
proof (intro conjI impI)
  assume "reachable srv w" and "\<exists>f \<in> set (bi_sql_view_field_ids (self w)). is_index f"
  then show "is_materialized (self w)"
    using reachable_constraint [of srv w] by (simp add: check_index_materialized_iff)
next
  assume "\<exists>f \<in> set (bi_sql_view_field_ids (self w)). is_index f"
  then show "write_is_materialized False w =
          (Inl (UserError ''You can not create indexes on non materialized views''), w)"
    by (auto simp: write_is_materialized_def check_index_materialized_def Let_def
        filter_empty_conv)
next
  assume "\<not> is_materialized (self w)"
  then show "field_write_is_index fid True w =
          (Inl (UserError ''You can not create indexes on non materialized views''), w)"
    by (simp add: field_write_is_index_def)
qed

theorem index_only_when_materialized_witness:
  "reachable
     \<lparr>mogrify = (\<lambda>q p. q), rejects = (\<lambda>cr s. None), rows_of = (\<lambda>cr s. []),
        colnames = [], copy_base64 = (\<lambda>cr s. []),
        columns_of = (\<lambda>s. [(1, ''x_a'', ''integer'')]),
        minor_version = 14, minor_version_str = ''14.0'', uuid_hex = ''00ff''\<rparr>
     \<lparr>self = \<lparr>name = ''n'', query = ''SELECT 1 AS x_a'', state = draft,
          use_external_database = False, has_group_changed = False,
          technical_name = ''t'', is_materialized = True, view_size = None,
          bi_sql_view_field_ids = [\<lparr>field_id = 1, field_name = ''x_a'', field_sequence = 1,
            sql_type = ''integer'', is_index = True, graph_type = None\<rparr>],
          model_id = None, rule_id = None, cron_id = None,
          tree_view_id = None, graph_view_id = None, pivot_view_id = None,
          search_view_id = None, action_id = None, menu_id = None\<rparr>,
        effects = [], next_id = 2\<rparr>
   \<and> write_is_materialized False
     \<lparr>self = \<lparr>name = ''n'', query = ''SELECT 1 AS x_a'', state = draft,
          use_external_database = False, has_group_changed = False,
          technical_name = ''t'', is_materialized = True, view_size = None,
          bi_sql_view_field_ids = [\<lparr>field_id = 1, field_name = ''x_a'', field_sequence = 1,
            sql_type = ''integer'', is_index = True, graph_type = None\<rparr>],
          model_id = None, rule_id = None, cron_id = None,
          tree_view_id = None, graph_view_id = None, pivot_view_id = None,
          search_view_id = None, action_id = None, menu_id = None\<rparr>,
        effects = [], next_id = 2\<rparr>
     = (Inl (UserError ''You can not create indexes on non materialized views''),
     \<lparr>self = \<lparr>name = ''n'', query = ''SELECT 1 AS x_a'', state = draft,
          use_external_database = False, has_group_changed = False,
          technical_name = ''t'', is_materialized = True, view_size = None,
          bi_sql_view_field_ids = [\<lparr>field_id = 1, field_name = ''x_a'', field_sequence = 1,
            sql_type = ''integer'', is_index = True, graph_type = None\<rparr>],
          model_id = None, rule_id = None, cron_id = None,
          tree_view_id = None, graph_view_id = None, pivot_view_id = None,
          search_view_id = None, action_id = None, menu_id = None\<rparr>,
        effects = [], next_id = 2\<rparr>)
   \<and> field_write_is_index 1 True
     \<lparr>self = \<lparr>name = ''n'', query = ''SELECT 1 AS x_a'', state = draft,
          use_external_database = False, has_group_changed = False,
          technical_name = ''t'', is_materialized = False, view_size = None,
          bi_sql_view_field_ids = [\<lparr>field_id = 1, field_name = ''x_a'', field_sequence = 1,
            sql_type = ''integer'', is_index = False, graph_type = None\<rparr>],
          model_id = None, rule_id = None, cron_id = None,
          tree_view_id = None, graph_view_id = None, pivot_view_id = None,
          search_view_id = None, action_id = None, menu_id = None\<rparr>,
        effects = [], next_id = 2\<rparr>
     = (Inl (UserError ''You can not create indexes on non materialized views''),
     \<lparr>self = \<lparr>name = ''n'', query = ''SELECT 1 AS x_a'', state = draft,
          use_external_database = False, has_group_changed = False,
          technical_name = ''t'', is_materialized = False, view_size = None,
          bi_sql_view_field_ids = [\<lparr>field_id = 1, field_name = ''x_a'', field_sequence = 1,
            sql_type = ''integer'', is_index = False, graph_type = None\<rparr>],
          model_id = None, rule_id = None, cron_id = None,
          tree_view_id = None, graph_view_id = None, pivot_view_id = None,
          search_view_id = None, action_id = None, menu_id = None\<rparr>,
        effects = [], next_id = 2\<rparr>)"
proof -
  let ?S = "\<lparr>mogrify = (\<lambda>q p. q), rejects = (\<lambda>cr s. None), rows_of = (\<lambda>cr s. []),
        colnames = [], copy_base64 = (\<lambda>cr s. []),
        columns_of = (\<lambda>s. [(1, ''x_a'', ''integer'')]),
        minor_version = 14, minor_version_str = ''14.0'', uuid_hex = ''00ff''\<rparr>"
  let ?W = "\<lparr>self = \<lparr>name = ''n'', query = ''SELECT 1 AS x_a'', state = draft,
          use_external_database = False, has_group_changed = False,
          technical_name = ''t'', is_materialized = True, view_size = None,
          bi_sql_view_field_ids = [\<lparr>field_id = 1, field_name = ''x_a'', field_sequence = 1,
            sql_type = ''integer'', is_index = True, graph_type = None\<rparr>],
          model_id = None, rule_id = None, cron_id = None,
          tree_view_id = None, graph_view_id = None, pivot_view_id = None,
          search_view_id = None, action_id = None, menu_id = None\<rparr>,
        effects = [], next_id = 2\<rparr>"
  let ?W' = "\<lparr>self = \<lparr>name = ''n'', query = ''SELECT 1 AS x_a'', state = draft,
          use_external_database = False, has_group_changed = False,
          technical_name = ''t'', is_materialized = False, view_size = None,
          bi_sql_view_field_ids = [\<lparr>field_id = 1, field_name = ''x_a'', field_sequence = 1,
            sql_type = ''integer'', is_index = False, graph_type = None\<rparr>],
          model_id = None, rule_id = None, cron_id = None,
          tree_view_id = None, graph_view_id = None, pivot_view_id = None,
          search_view_id = None, action_id = None, menu_id = None\<rparr>,
        effects = [], next_id = 2\<rparr>"
  have r: "reachable ?S ?W"
    by (rule reachable.accepted) (simp add: check_index_materialized_def)
  have a: "write_is_materialized False ?W =
      (Inl (UserError ''You can not create indexes on non materialized views''), ?W)"
    using index_only_when_materialized [of ?S ?W 1] by simp
  have b: "field_write_is_index 1 True ?W' =
      (Inl (UserError ''You can not create indexes on non materialized views''), ?W')"
    using index_only_when_materialized [of ?S ?W' 1] by simp
  from r a b show ?thesis by blast
qed

section \<open>Verification: running the synchronization twice\<close>

lemma sync_columns_snoc:
  "sync_columns (cs @ [c]) ids w =
     (case sync_columns cs ids w of
        (Inl e, w1) \<Rightarrow> (Inl e, w1)
      | (Inr ids1, w1) \<Rightarrow> sync_column c ids1 w1)"
  by (induction cs arbitrary: ids w) (auto split: prod.splits sum.splits)

lemma overwrite_name [simp]: "field_name (overwrite c f) = field_name f"
  by (simp add: overwrite_def)

lemma overwrite_id [simp]: "field_id (overwrite c f) = field_id f"
  by (simp add: overwrite_def)

lemma fold_overwrite_name [simp]: "field_name (fold overwrite cs f) = field_name f"
  by (induction cs arbitrary: f) simp_all

lemma fold_overwrite_id [simp]: "field_id (fold overwrite cs f) = field_id f"
  by (induction cs arbitrary: f) simp_all

lemma fold_overwrite_values:
  "(fold overwrite cs f)\<lparr>field_sequence := a, sql_type := b\<rparr> = f\<lparr>field_sequence := a, sql_type := b\<rparr>"
  by (induction cs arbitrary: f) (simp_all add: overwrite_def)

lemma fold_overwrite_snoc_fix:
  assumes "fold overwrite cs g = g"
  shows "fold overwrite (cs @ [c]) (overwrite c g) = overwrite c g"
proof (cases "field_name g = fst (snd c)")
  case True
  have "fold overwrite (cs @ [c]) (overwrite c g) =
      (fold overwrite cs (overwrite c g))\<lparr>field_sequence := fst c, sql_type := snd (snd c)\<rparr>"
    using True by (simp add: overwrite_def)
  also have "\<dots> = (overwrite c g)\<lparr>field_sequence := fst c, sql_type := snd (snd c)\<rparr>"
    by (rule fold_overwrite_values)
  also have "\<dots> = overwrite c g" using True by (simp add: overwrite_def)
  finally show ?thesis .
next
  case False
  then have "overwrite c g = g" by (simp add: overwrite_def)
  then show ?thesis using assms False by (simp add: overwrite_def)
qed

lemma fold_overwrite_new:
  "fold overwrite (cs @ [c]) (new_view_field i c) = new_view_field i c"
proof -
  have n: "field_name (new_view_field i c) = fst (snd c)" by (simp add: new_view_field_def)
  have "fold overwrite (cs @ [c]) (new_view_field i c) =
      (fold overwrite cs (new_view_field i c))\<lparr>field_sequence := fst c, sql_type := snd (snd c)\<rparr>"
    using n by (simp add: overwrite_def)
  also have "\<dots> = (new_view_field i c)\<lparr>field_sequence := fst c, sql_type := snd (snd c)\<rparr>"
    by (rule fold_overwrite_values)
  also have "\<dots> = new_view_field i c" by (simp add: new_view_field_def)
  finally show ?thesis .
qed

lemma filter_name_overwrite:
  "filter (\<lambda>x. field_name x = n) (map (overwrite c) fs) =
     map (overwrite c) (filter (\<lambda>x. field_name x = n) fs)"
  by (induction fs) simp_all

lemma settled_overwrite: "settled cols (map (overwrite c) fs) = settled cols fs"
  by (simp add: settled_def filter_name_overwrite)

lemma unique_by_name:
  assumes d: "distinct (map field_id fs)"
    and f: "filter (\<lambda>x. field_name x = n) fs = [f]"
    and x: "x \<in> set fs"
  shows "field_id x = field_id f \<longleftrightarrow> field_name x = n"
proof -
  from f have "f \<in> set (filter (\<lambda>x. field_name x = n) fs)" by simp
  then have fin: "f \<in> set fs" and fn: "field_name f = n" by simp_all
  show ?thesis
  proof
    assume "field_id x = field_id f"
    with d x fin have "x = f" by (meson distinct_map inj_onD)
    with fn show "field_name x = n" by simp
  next
    assume "field_name x = n"
    with x have "x \<in> set (filter (\<lambda>x. field_name x = n) fs)" by simp
    with f show "field_id x = field_id f" by simp
  qed
qed

lemma sync_column_one:
  assumes d: "distinct (map field_id (bi_sql_view_field_ids (self w)))"
    and f: "filter (\<lambda>x. field_name x = fst (snd c)) (bi_sql_view_field_ids (self w)) = [f]"
  shows "sync_column c ids w =
     (Inr (ids @ [field_id f]),
      w\<lparr>self := (self w)\<lparr>bi_sql_view_field_ids :=
             map (overwrite c) (bi_sql_view_field_ids (self w))\<rparr>,
         effects := effects w @ [OrmWriteField (field_id f) (fst c) (snd (snd c))]\<rparr>)"
proof -
  have "map (\<lambda>x. if field_id x = field_id f
                 then x\<lparr>field_sequence := fst c, sql_type := snd (snd c)\<rparr> else x)
          (bi_sql_view_field_ids (self w))
        = map (overwrite c) (bi_sql_view_field_ids (self w))"
    using unique_by_name [OF d f] by (auto simp: overwrite_def)
  then show ?thesis using f by (simp add: sync_column_def Let_def emit_def)
qed

lemma sync_column_many:
  assumes "2 \<le> length (filter (\<lambda>x. field_name x = fst (snd c)) (bi_sql_view_field_ids (self w)))"
  shows "sync_column c ids w = (Inl ValueError, w)"
proof -
  from assms obtain a b rest where
    "filter (\<lambda>x. field_name x = fst (snd c)) (bi_sql_view_field_ids (self w)) = a # b # rest"
    by (cases "filter (\<lambda>x. field_name x = fst (snd c)) (bi_sql_view_field_ids (self w))";
        cases "tl (filter (\<lambda>x. field_name x = fst (snd c)) (bi_sql_view_field_ids (self w)))")
       auto
  then show ?thesis by (simp add: sync_column_def Let_def)
qed

lemma sync_column_skip:
  assumes "filter (\<lambda>x. field_name x = fst (snd c)) (bi_sql_view_field_ids (self w)) = []"
    and "take 2 (fst (snd c)) \<noteq> ''x_''"
  shows "sync_column c ids w = (Inr ids, w)"
  using assms by (simp add: sync_column_def Let_def)

lemma sync_column_create:
  assumes "filter (\<lambda>x. field_name x = fst (snd c)) (bi_sql_view_field_ids (self w)) = []"
    and "take 2 (fst (snd c)) = ''x_''"
  shows "sync_column c ids w =
          (Inr (ids @ [next_id w]),
           w\<lparr>self := (self w)\<lparr>bi_sql_view_field_ids :=
                  bi_sql_view_field_ids (self w) @ [new_view_field (next_id w) c]\<rparr>,
              effects := effects w @ [OrmCreate ''bi.sql.view.field'' (next_id w)],
              next_id := Suc (next_id w)\<rparr>)"
  using assms by (simp add: sync_column_def Let_def emit_def)

lemma filter_names_overwrite:
  "filter (\<lambda>x. field_name x \<in> N) (map (overwrite c) fs) =
     map (overwrite c) (filter (\<lambda>x. field_name x \<in> N) fs)"
  by (induction fs) simp_all

lemma id_comp_overwrite [simp]: "field_id \<circ> overwrite c = field_id"
  by (rule ext) simp

lemma map_id_overwrite: "map field_id (map (overwrite c) fs) = map field_id fs"
  by simp

lemma matched_ids_overwrite: "matched_ids cols (map (overwrite c) fs) = matched_ids cols fs"
  by (simp add: matched_ids_def filter_names_overwrite map_id_overwrite)

lemma matched_ids_snoc:
  "set (matched_ids (cs @ [c]) fs) =
     set (matched_ids cs fs) \<union> field_id ` set (filter (\<lambda>x. field_name x = fst (snd c)) fs)"
  by (auto simp: matched_ids_def)

lemma matched_ids_append:
  "set (matched_ids cols (fs @ gs)) = set (matched_ids cols fs) \<union> set (matched_ids cols gs)"
  by (auto simp: matched_ids_def)

lemma settled_snoc:
  "settled (cs @ [c]) fs \<longleftrightarrow> settled cs fs \<and> settled [c] fs"
  by (auto simp: settled_def)

lemma wf_fields_overwrite:
  assumes "wf_fields w"
  shows "wf_fields (w\<lparr>self := (self w)\<lparr>bi_sql_view_field_ids :=
             map (overwrite c) (bi_sql_view_field_ids (self w))\<rparr>, effects := es\<rparr>)"
  using assms by (simp add: wf_fields_def map_id_overwrite)

lemma synced_one:
  assumes inv: "synced cs ids0 ids1 w"
    and one: "filter (\<lambda>x. field_name x = fst (snd c)) (bi_sql_view_field_ids (self w)) = [f]"
  shows "synced (cs @ [c]) ids0 (ids1 @ [field_id f])
     (w\<lparr>self := (self w)\<lparr>bi_sql_view_field_ids :=
             map (overwrite c) (bi_sql_view_field_ids (self w))\<rparr>, effects := es\<rparr>)"
proof -
  let ?F = "bi_sql_view_field_ids (self w)"
  from inv have wf: "wf_fields w" and st: "settled cs ?F"
    and fx: "\<forall>f \<in> set ?F. fold overwrite cs f = f"
    and ids: "set ids1 = set ids0 \<union> set (matched_ids cs ?F)"
    by (simp_all add: synced_def)
  have 1: "settled (cs @ [c]) (map (overwrite c) ?F)"
    using st one by (simp add: settled_snoc settled_overwrite) (simp add: settled_def)
  have 2: "\<forall>f' \<in> set (map (overwrite c) ?F). fold overwrite (cs @ [c]) f' = f'"
  proof
    fix f' assume "f' \<in> set (map (overwrite c) ?F)"
    then obtain g where "g \<in> set ?F" "f' = overwrite c g" by auto
    with fx show "fold overwrite (cs @ [c]) f' = f'"
      using fold_overwrite_snoc_fix [of cs g c] by simp
  qed
  have 3: "set (ids1 @ [field_id f]) =
      set ids0 \<union> set (matched_ids (cs @ [c]) (map (overwrite c) ?F))"
    using ids one by (simp add: matched_ids_overwrite matched_ids_snoc)
  show ?thesis
    unfolding synced_def using wf_fields_overwrite [OF wf] 1 2 3 by simp
qed

lemma synced_skip:
  assumes inv: "synced cs ids0 ids1 w"
    and none: "filter (\<lambda>x. field_name x = fst (snd c)) (bi_sql_view_field_ids (self w)) = []"
    and np: "take 2 (fst (snd c)) \<noteq> ''x_''"
  shows "synced (cs @ [c]) ids0 ids1 w"
proof -
  let ?F = "bi_sql_view_field_ids (self w)"
  from inv have wf: "wf_fields w" and st: "settled cs ?F"
    and fx: "\<forall>f \<in> set ?F. fold overwrite cs f = f"
    and ids: "set ids1 = set ids0 \<union> set (matched_ids cs ?F)"
    by (simp_all add: synced_def)
  from none have nm: "\<forall>x \<in> set ?F. field_name x \<noteq> fst (snd c)"
    by (simp add: filter_empty_conv)
  have 1: "settled (cs @ [c]) ?F"
    using st none np by (simp add: settled_snoc) (simp add: settled_def)
  have 2: "\<forall>f \<in> set ?F. fold overwrite (cs @ [c]) f = f"
    using fx nm by (simp add: overwrite_def)
  have 3: "set ids1 = set ids0 \<union> set (matched_ids (cs @ [c]) ?F)"
    using ids none by (simp add: matched_ids_snoc)
  show ?thesis unfolding synced_def using wf 1 2 3 by simp
qed

lemma synced_create:
  assumes inv: "synced cs ids0 ids1 w"
    and none: "filter (\<lambda>x. field_name x = fst (snd c)) (bi_sql_view_field_ids (self w)) = []"
    and px: "take 2 (fst (snd c)) = ''x_''"
  shows "synced (cs @ [c]) ids0 (ids1 @ [next_id w])
     (w\<lparr>self := (self w)\<lparr>bi_sql_view_field_ids :=
                  bi_sql_view_field_ids (self w) @ [new_view_field (next_id w) c]\<rparr>,
         effects := es, next_id := Suc (next_id w)\<rparr>)"
proof -
  let ?F = "bi_sql_view_field_ids (self w)"
  let ?n = "new_view_field (next_id w) c"
  from inv have wf: "wf_fields w" and st: "settled cs ?F"
    and fx: "\<forall>f \<in> set ?F. fold overwrite cs f = f"
    and ids: "set ids1 = set ids0 \<union> set (matched_ids cs ?F)"
    by (simp_all add: synced_def)
  have nn: "field_name ?n = fst (snd c)" and ni: "field_id ?n = next_id w"
    by (simp_all add: new_view_field_def)
  from none have nm: "\<forall>x \<in> set ?F. field_name x \<noteq> fst (snd c)"
    by (simp add: filter_empty_conv)
  have 0: "distinct (map field_id (?F @ [?n])) \<and> (\<forall>f \<in> set (?F @ [?n]). field_id f < Suc (next_id w))"
    using wf ni by (auto simp: wf_fields_def less_Suc_eq)
  have other: "fst (snd d) \<noteq> fst (snd c)" if "d \<in> set cs" for d
  proof
    assume eq: "fst (snd d) = fst (snd c)"
    from st that have "length (filter (\<lambda>x. field_name x = fst (snd d)) ?F) = 1
        \<or> (filter (\<lambda>x. field_name x = fst (snd d)) ?F = [] \<and> take 2 (fst (snd d)) \<noteq> ''x_'')"
      by (simp add: settled_def)
    with eq none px show False by simp
  qed
  have 1: "settled (cs @ [c]) (?F @ [?n])"
    unfolding settled_snoc
  proof
    show "settled cs (?F @ [?n])"
      unfolding settled_def
    proof
      fix d assume d: "d \<in> set cs"
      from other [OF d] nn
      have "filter (\<lambda>x. field_name x = fst (snd d)) (?F @ [?n]) =
          filter (\<lambda>x. field_name x = fst (snd d)) ?F" by simp
      with st d show "length (filter (\<lambda>x. field_name x = fst (snd d)) (?F @ [?n])) = 1
        \<or> (filter (\<lambda>x. field_name x = fst (snd d)) (?F @ [?n]) = []
            \<and> take 2 (fst (snd d)) \<noteq> ''x_'')"
        by (simp add: settled_def)
    qed
    show "settled [c] (?F @ [?n])"
      using none nn by (simp add: settled_def)
  qed
  have 2: "\<forall>f \<in> set (?F @ [?n]). fold overwrite (cs @ [c]) f = f"
  proof
    fix f assume "f \<in> set (?F @ [?n])"
    then consider "f \<in> set ?F" | "f = ?n" by auto
    then show "fold overwrite (cs @ [c]) f = f"
    proof cases
      case 1
      with fx nm show ?thesis by (simp add: overwrite_def)
    next
      case 2
      then show ?thesis by (simp only: fold_overwrite_new)
    qed
  qed
  have m1: "set (matched_ids (cs @ [c]) ?F) = set (matched_ids cs ?F)"
    using none by (simp add: matched_ids_snoc)
  have m2: "set (matched_ids (cs @ [c]) [?n]) = {next_id w}"
    using nn ni by (simp add: matched_ids_def)
  have 3: "set (ids1 @ [next_id w]) = set ids0 \<union> set (matched_ids (cs @ [c]) (?F @ [?n]))"
    using ids m1 m2 by (simp add: matched_ids_append)
  show ?thesis unfolding synced_def wf_fields_def using 0 1 2 3 by simp
qed

lemma column_cases:
  obtains (one) f where "filter (\<lambda>x. field_name x = n) fs = [f]"
    | (many) "2 \<le> length (filter (\<lambda>x. field_name x = n) fs)"
    | (none) "filter (\<lambda>x. field_name x = n) fs = []"
  by (cases "filter (\<lambda>x. field_name x = n) fs"; cases "tl (filter (\<lambda>x. field_name x = n) fs)")
     auto

lemma synced_Nil: "wf_fields w \<Longrightarrow> synced [] ids ids w"
  by (simp add: synced_def settled_def matched_ids_def)

lemma first_run:
  assumes wf: "wf_fields w"
  shows "sync_columns cols ids0 w = (r, w') \<Longrightarrow>
     (case r of
        Inr ids \<Rightarrow> synced cols ids0 ids w'
      | Inl e \<Rightarrow>
          e = ValueError \<and>
          (\<exists>pre c rest ids. cols = pre @ c # rest \<and> synced pre ids0 ids w'
             \<and> 2 \<le> length (filter (\<lambda>x. field_name x = fst (snd c))
                              (bi_sql_view_field_ids (self w')))))"
proof (induction cols arbitrary: r w' rule: rev_induct)
  case Nil
  then show ?case using wf by (auto simp: synced_Nil)
next
  case (snoc c cs)
  obtain r0 w0 where s0: "sync_columns cs ids0 w = (r0, w0)"
    by (cases "sync_columns cs ids0 w")
  note ih = snoc.IH [OF s0]
  show ?case
  proof (cases r0)
    case (Inl e)
    with s0 snoc.prems have rw: "r = Inl e" "w' = w0" by (simp_all add: sync_columns_snoc)
    from ih Inl obtain pre d rest ids where "e = ValueError" "cs = pre @ d # rest"
      "synced pre ids0 ids w0"
      "2 \<le> length (filter (\<lambda>x. field_name x = fst (snd d)) (bi_sql_view_field_ids (self w0)))"
      by auto
    then have "cs @ [c] = pre @ d # (rest @ [c])" by simp
    with rw \<open>e = ValueError\<close> \<open>synced pre ids0 ids w0\<close>
      \<open>2 \<le> length (filter (\<lambda>x. field_name x = fst (snd d)) (bi_sql_view_field_ids (self w0)))\<close>
    show ?thesis by (simp only: sum.case) blast
  next
    case (Inr ids1)
    with ih have inv: "synced cs ids0 ids1 w0" by simp
    then have d: "distinct (map field_id (bi_sql_view_field_ids (self w0)))"
      by (simp add: synced_def wf_fields_def)
    from Inr s0 snoc.prems have step: "sync_column c ids1 w0 = (r, w')"
      by (simp add: sync_columns_snoc)
    show ?thesis
    proof (cases rule: column_cases [of "fst (snd c)" "bi_sql_view_field_ids (self w0)"])
      case (one f)
      from step sync_column_one [OF d one, of ids1]
      have "r = Inr (ids1 @ [field_id f])"
        "w' = w0\<lparr>self := (self w0)\<lparr>bi_sql_view_field_ids :=
             map (overwrite c) (bi_sql_view_field_ids (self w0))\<rparr>,
         effects := effects w0 @ [OrmWriteField (field_id f) (fst c) (snd (snd c))]\<rparr>"
        by simp_all
      then show ?thesis using synced_one [OF inv one] by simp
    next
      case many
      from step sync_column_many [OF many, of ids1]
      have "r = Inl ValueError" "w' = w0" by simp_all
      moreover have "cs @ [c] = cs @ c # []" by simp
      ultimately show ?thesis using inv many by (simp only: sum.case) blast
    next
      case none
      show ?thesis
      proof (cases "take 2 (fst (snd c)) = ''x_''")
        case True
        from step sync_column_create [OF none True, of ids1]
        have "r = Inr (ids1 @ [next_id w0])"
          "w' = w0\<lparr>self := (self w0)\<lparr>bi_sql_view_field_ids :=
                  bi_sql_view_field_ids (self w0) @ [new_view_field (next_id w0) c]\<rparr>,
              effects := effects w0 @ [OrmCreate ''bi.sql.view.field'' (next_id w0)],
              next_id := Suc (next_id w0)\<rparr>"
          by simp_all
        then show ?thesis using synced_create [OF inv none True] by simp
      next
        case False
        from step sync_column_skip [OF none False, of ids1]
        have "r = Inr ids1" "w' = w0" by simp_all
        then show ?thesis using synced_skip [OF inv none False] by simp
      qed
    qed
  qed
qed

lemma field_writes_Nil [simp]: "field_writes cols fs []"
  by (simp add: field_writes_def)

lemma field_writes_Cons_rest:
  "field_writes cs (map (overwrite c) fs) es \<Longrightarrow> field_writes (c # cs) fs es"
  unfolding field_writes_def
proof
  fix e assume a: "\<forall>e\<in>set es. \<exists>d\<in>set cs. \<exists>f\<in>set (map (overwrite c) fs).
           field_name f = fst (snd d) \<and> e = OrmWriteField (field_id f) (fst d) (snd (snd d))"
    and e: "e \<in> set es"
  then obtain d f' where d: "d \<in> set cs" and f': "f' \<in> set (map (overwrite c) fs)"
    and p: "field_name f' = fst (snd d)" "e = OrmWriteField (field_id f') (fst d) (snd (snd d))"
    by blast
  from f' obtain g where g: "g \<in> set fs" "f' = overwrite c g" by auto
  with p have "field_name g = fst (snd d)" "e = OrmWriteField (field_id g) (fst d) (snd (snd d))"
    by simp_all
  with d g show "\<exists>d\<in>set (c # cs). \<exists>f\<in>set fs.
           field_name f = fst (snd d) \<and> e = OrmWriteField (field_id f) (fst d) (snd (snd d))"
    by auto
qed

lemma field_writes_Cons_skip:
  "field_writes cs fs es \<Longrightarrow> field_writes (c # cs) fs es"
  unfolding field_writes_def by auto

lemma field_writes_first:
  assumes "f \<in> set fs" "field_name f = fst (snd c)" "field_writes (c # cs) fs es"
  shows "field_writes (c # cs) fs (OrmWriteField (field_id f) (fst c) (snd (snd c)) # es)"
  using assms unfolding field_writes_def by auto

lemma matched_ids_Cons:
  "set (matched_ids (c # cs) fs) =
     field_id ` set (filter (\<lambda>x. field_name x = fst (snd c)) fs) \<union> set (matched_ids cs fs)"
  by (auto simp: matched_ids_def)

lemma second_run:
  "wf_fields w \<Longrightarrow> settled pre (bi_sql_view_field_ids (self w)) \<Longrightarrow>
     \<exists>ids' es.
       sync_columns (pre @ rest) ids w =
         sync_columns rest ids'
           (w\<lparr>self := (self w)\<lparr>bi_sql_view_field_ids :=
                   map (fold overwrite pre) (bi_sql_view_field_ids (self w))\<rparr>,
              effects := effects w @ es\<rparr>)
       \<and> set ids' = set ids \<union> set (matched_ids pre (bi_sql_view_field_ids (self w)))
       \<and> field_writes pre (bi_sql_view_field_ids (self w)) es"
proof (induction pre arbitrary: w ids)
  case Nil
  have "sync_columns ([] @ rest) ids w =
         sync_columns rest ids
           (w\<lparr>self := (self w)\<lparr>bi_sql_view_field_ids :=
                   map (fold overwrite []) (bi_sql_view_field_ids (self w))\<rparr>,
              effects := effects w @ []\<rparr>)"
    by simp
  moreover have "set ids = set ids \<union> set (matched_ids [] (bi_sql_view_field_ids (self w)))"
    by (simp add: matched_ids_def)
  ultimately show ?case using field_writes_Nil by blast
next
  case (Cons c cs)
  let ?F = "bi_sql_view_field_ids (self w)"
  from Cons.prems have wf: "wf_fields w" and st: "settled (c # cs) ?F" by simp_all
  from st have stc: "length (filter (\<lambda>x. field_name x = fst (snd c)) ?F) = 1
        \<or> (filter (\<lambda>x. field_name x = fst (snd c)) ?F = [] \<and> take 2 (fst (snd c)) \<noteq> ''x_'')"
    and sts: "settled cs ?F"
    by (simp_all add: settled_def)
  from wf have d: "distinct (map field_id ?F)" by (simp add: wf_fields_def)
  from stc show ?case
  proof
    assume "length (filter (\<lambda>x. field_name x = fst (snd c)) ?F) = 1"
    then obtain f where one: "filter (\<lambda>x. field_name x = fst (snd c)) ?F = [f]"
      by (cases "filter (\<lambda>x. field_name x = fst (snd c)) ?F") auto
    then have "f \<in> set (filter (\<lambda>x. field_name x = fst (snd c)) ?F)" by simp
    then have fin: "f \<in> set ?F" and fn: "field_name f = fst (snd c)" by simp_all
    let ?wr = "OrmWriteField (field_id f) (fst c) (snd (snd c))"
    let ?w1 = "w\<lparr>self := (self w)\<lparr>bi_sql_view_field_ids := map (overwrite c) ?F\<rparr>,
         effects := effects w @ [?wr]\<rparr>"
    have step: "sync_column c ids w = (Inr (ids @ [field_id f]), ?w1)"
      by (rule sync_column_one [OF d one])
    have wf1: "wf_fields ?w1" by (rule wf_fields_overwrite [OF wf])
    have st1: "settled cs (bi_sql_view_field_ids (self ?w1))"
      using sts by (simp add: settled_overwrite)
    from Cons.IH [OF wf1 st1, of "ids @ [field_id f]"]
    obtain ids' es where
      run: "sync_columns (cs @ rest) (ids @ [field_id f]) ?w1 =
         sync_columns rest ids'
           (?w1\<lparr>self := (self ?w1)\<lparr>bi_sql_view_field_ids :=
                   map (fold overwrite cs) (bi_sql_view_field_ids (self ?w1))\<rparr>,
              effects := effects ?w1 @ es\<rparr>)"
      and ids: "set ids' = set (ids @ [field_id f])
                  \<union> set (matched_ids cs (bi_sql_view_field_ids (self ?w1)))"
      and wr: "field_writes cs (bi_sql_view_field_ids (self ?w1)) es"
      by blast
    have a: "sync_columns ((c # cs) @ rest) ids w =
         sync_columns rest ids'
           (w\<lparr>self := (self w)\<lparr>bi_sql_view_field_ids := map (fold overwrite (c # cs)) ?F\<rparr>,
              effects := effects w @ (?wr # es)\<rparr>)"
      using step run by simp
    have b: "set ids' = set ids \<union> set (matched_ids (c # cs) ?F)"
      using ids one by (simp add: matched_ids_Cons matched_ids_overwrite)
    have "field_writes (c # cs) ?F es"
      using wr by (simp add: field_writes_Cons_rest)
    then have c: "field_writes (c # cs) ?F (?wr # es)"
      using fin fn by (simp add: field_writes_first)
    from a b c show ?thesis by blast
  next
    assume "filter (\<lambda>x. field_name x = fst (snd c)) ?F = [] \<and> take 2 (fst (snd c)) \<noteq> ''x_''"
    then have none: "filter (\<lambda>x. field_name x = fst (snd c)) ?F = []"
      and np: "take 2 (fst (snd c)) \<noteq> ''x_''" by simp_all
    have step: "sync_column c ids w = (Inr ids, w)"
      by (rule sync_column_skip [OF none np])
    from none have nm: "\<forall>x \<in> set ?F. field_name x \<noteq> fst (snd c)"
      by (simp add: filter_empty_conv)
    then have same: "map (fold overwrite (c # cs)) ?F = map (fold overwrite cs) ?F"
      by (simp add: overwrite_def)
    from Cons.IH [OF wf sts, of ids]
    obtain ids' es where
      run: "sync_columns (cs @ rest) ids w =
         sync_columns rest ids'
           (w\<lparr>self := (self w)\<lparr>bi_sql_view_field_ids := map (fold overwrite cs) ?F\<rparr>,
              effects := effects w @ es\<rparr>)"
      and ids: "set ids' = set ids \<union> set (matched_ids cs ?F)"
      and wr: "field_writes cs ?F es"
      by blast
    have a: "sync_columns ((c # cs) @ rest) ids w =
         sync_columns rest ids'
           (w\<lparr>self := (self w)\<lparr>bi_sql_view_field_ids := map (fold overwrite (c # cs)) ?F\<rparr>,
              effects := effects w @ es\<rparr>)"
      unfolding same using step run by simp
    have b: "set ids' = set ids \<union> set (matched_ids (c # cs) ?F)"
      using ids none by (simp add: matched_ids_Cons)
    have c: "field_writes (c # cs) ?F es"
      using wr by (rule field_writes_Cons_skip)
    from a b c show ?thesis by blast
  qed
qed

lemma fold_overwrite_nomatch:
  "\<forall>c \<in> set cs. fst (snd c) \<noteq> field_name f \<Longrightarrow> fold overwrite cs f = f"
  by (induction cs arbitrary: f) (auto simp: overwrite_def)

lemma fold_overwrite_distinct:
  "distinct (map (\<lambda>c. fst (snd c)) cs) \<Longrightarrow> c \<in> set cs \<Longrightarrow> field_name f = fst (snd c) \<Longrightarrow>
     fold overwrite cs f = f\<lparr>field_sequence := fst c, sql_type := snd (snd c)\<rparr>"
proof (induction cs arbitrary: f)
  case Nil
  then show ?case by simp
next
  case (Cons d ds)
  show ?case
  proof (cases "d = c")
    case True
    let ?g = "f\<lparr>field_sequence := fst c, sql_type := snd (snd c)\<rparr>"
    from True Cons.prems(1) have "fst (snd c) \<notin> (\<lambda>c. fst (snd c)) ` set ds" by simp
    then have "\<forall>e \<in> set ds. fst (snd e) \<noteq> fst (snd c)"
    proof (intro ballI notI)
      fix e assume "e \<in> set ds" and eq: "fst (snd e) = fst (snd c)"
      then have "fst (snd e) \<in> (\<lambda>c. fst (snd c)) ` set ds" by (intro imageI)
      with eq show False using \<open>fst (snd c) \<notin> (\<lambda>c. fst (snd c)) ` set ds\<close> by simp
    qed
    with Cons.prems(3) have "\<forall>e \<in> set ds. fst (snd e) \<noteq> field_name ?g" by simp
    then have "fold overwrite ds ?g = ?g" by (rule fold_overwrite_nomatch)
    moreover have "overwrite c f = ?g" using Cons.prems(3) by (simp add: overwrite_def)
    ultimately show ?thesis using True by simp
  next
    case False
    with Cons.prems have cin: "c \<in> set ds" and dd: "distinct (map (\<lambda>c. fst (snd c)) ds)"
      and ne: "fst (snd d) \<noteq> fst (snd c)" by auto
    from ne Cons.prems(3) have "overwrite d f = f" by (simp add: overwrite_def)
    with Cons.IH [OF dd cin Cons.prems(3)] show ?thesis by simp
  qed
qed

lemma field_writes_same_values:
  assumes fw: "field_writes cs fs es"
    and fx: "\<forall>f \<in> set fs. fold overwrite cs f = f"
    and e: "e \<in> set es"
  shows "\<exists>i s t. e = OrmWriteField i s t
     \<and> (distinct (map (\<lambda>c. fst (snd c)) cs) \<longrightarrow>
          (\<exists>f \<in> set fs. field_id f = i \<and> field_sequence f = s \<and> sql_type f = t))"
proof -
  from fw e obtain c f where c: "c \<in> set cs" and f: "f \<in> set fs"
    and n: "field_name f = fst (snd c)"
    and eq: "e = OrmWriteField (field_id f) (fst c) (snd (snd c))"
    unfolding field_writes_def by blast
  have "field_sequence f = fst c \<and> sql_type f = snd (snd c)"
    if "distinct (map (\<lambda>c. fst (snd c)) cs)"
  proof -
    from fold_overwrite_distinct [OF that c n] fx f
    have "f = f\<lparr>field_sequence := fst c, sql_type := snd (snd c)\<rparr>" by simp
    then have "field_sequence f = field_sequence (f\<lparr>field_sequence := fst c, sql_type := snd (snd c)\<rparr>)"
      and "sql_type f = sql_type (f\<lparr>field_sequence := fst c, sql_type := snd (snd c)\<rparr>)"
      by simp_all
    then show ?thesis by simp
  qed
  with eq f show ?thesis by blast
qed

lemma kept_generic:
  assumes d: "distinct (map field_id fs)" and x: "x \<in> set fs"
  shows "field_id x \<in> field_id ` set (filter P fs) \<longleftrightarrow> P x"
proof
  assume "field_id x \<in> field_id ` set (filter P fs)"
  then obtain y where "y \<in> set (filter P fs)" and "field_id x = field_id y"
    by (rule imageE)
  then have y: "y \<in> set fs" "P y" "field_id y = field_id x" by simp_all
  with d x have "y = x" by (meson distinct_map inj_onD)
  with y show "P x" by simp
next
  assume "P x"
  with x show "field_id x \<in> field_id ` set (filter P fs)" by simp
qed

lemma kept_by_name:
  assumes d: "distinct (map field_id fs)" and x: "x \<in> set fs"
  shows "field_id x \<in> set (matched_ids cols fs) \<longleftrightarrow>
         field_name x \<in> (\<lambda>c. fst (snd c)) ` set cols"
  unfolding matched_ids_def set_map by (rule kept_generic [OF d x])

lemma unlink_obsolete_synced:
  assumes inv: "synced cols [] ids w"
  shows "bi_sql_view_field_ids (self (unlink_obsolete ids w)) =
           filter (\<lambda>x. field_name x \<in> (\<lambda>c. fst (snd c)) ` set cols)
             (bi_sql_view_field_ids (self w))"
proof -
  let ?F = "bi_sql_view_field_ids (self w)"
  from inv have d: "distinct (map field_id ?F)" and ids: "set ids = set (matched_ids cols ?F)"
    by (simp_all add: synced_def wf_fields_def)
  have "filter (\<lambda>x. field_id x \<in> set ids) ?F =
      filter (\<lambda>x. field_name x \<in> (\<lambda>c. fst (snd c)) ` set cols) ?F"
    unfolding ids using kept_by_name [OF d] by (intro filter_cong) auto
  then show ?thesis by (simp add: unlink_obsolete_def Let_def)
qed

lemma settled_after_unlink:
  "settled cols (filter (\<lambda>x. field_name x \<in> (\<lambda>c. fst (snd c)) ` set cols) fs) = settled cols fs"
proof -
  have "filter (\<lambda>x. field_name x = fst (snd c))
          (filter (\<lambda>x. field_name x \<in> (\<lambda>c. fst (snd c)) ` set cols) fs)
        = filter (\<lambda>x. field_name x = fst (snd c)) fs" if "c \<in> set cols" for c
    using that by (induction fs) auto
  then show ?thesis by (simp add: settled_def)
qed

lemma fixed_map: "\<forall>f \<in> set fs. g f = f \<Longrightarrow> map g fs = fs"
  by (induction fs) simp_all

lemma self_fields_same:
  "(self w)\<lparr>bi_sql_view_field_ids := bi_sql_view_field_ids (self w)\<rparr> = self w"
  by simp

lemma second_run_fixed:
  assumes wf: "wf_fields w"
    and st: "settled pre (bi_sql_view_field_ids (self w))"
    and fx: "\<forall>f \<in> set (bi_sql_view_field_ids (self w)). fold overwrite pre f = f"
  shows "\<exists>ids' es.
       sync_columns (pre @ rest) ids w = sync_columns rest ids' (w\<lparr>effects := effects w @ es\<rparr>)
       \<and> set ids' = set ids \<union> set (matched_ids pre (bi_sql_view_field_ids (self w)))
       \<and> field_writes pre (bi_sql_view_field_ids (self w)) es"
proof -
  from second_run [OF wf st, of rest ids] obtain ids' es where
    run: "sync_columns (pre @ rest) ids w =
         sync_columns rest ids'
           (w\<lparr>self := (self w)\<lparr>bi_sql_view_field_ids :=
                   map (fold overwrite pre) (bi_sql_view_field_ids (self w))\<rparr>,
              effects := effects w @ es\<rparr>)"
    and ids: "set ids' = set ids \<union> set (matched_ids pre (bi_sql_view_field_ids (self w)))"
    and fw: "field_writes pre (bi_sql_view_field_ids (self w)) es"
    by blast
  have "map (fold overwrite pre) (bi_sql_view_field_ids (self w)) = bi_sql_view_field_ids (self w)"
    using fx by (rule fixed_map)
  then have "w\<lparr>self := (self w)\<lparr>bi_sql_view_field_ids :=
                   map (fold overwrite pre) (bi_sql_view_field_ids (self w))\<rparr>,
              effects := effects w @ es\<rparr> = w\<lparr>effects := effects w @ es\<rparr>"
    by simp
  with run ids fw show ?thesis by metis
qed

lemma reconcile_second_after_error:
  assumes inv: "synced pre [] ids w"
    and many: "2 \<le> length (filter (\<lambda>x. field_name x = fst (snd c)) (bi_sql_view_field_ids (self w)))"
  shows "\<exists>es. reconcile (pre @ c # rest) w = (Inl ValueError, w\<lparr>effects := effects w @ es\<rparr>)
           \<and> field_writes pre (bi_sql_view_field_ids (self w)) es"
proof -
  from inv have wf: "wf_fields w" and st: "settled pre (bi_sql_view_field_ids (self w))"
    and fx: "\<forall>f \<in> set (bi_sql_view_field_ids (self w)). fold overwrite pre f = f"
    by (simp_all add: synced_def)
  from second_run_fixed [OF wf st fx, of "c # rest" "[]"] obtain ids' es where
    run: "sync_columns (pre @ c # rest) [] w =
            sync_columns (c # rest) ids' (w\<lparr>effects := effects w @ es\<rparr>)"
    and fw: "field_writes pre (bi_sql_view_field_ids (self w)) es"
    by blast
  let ?w' = "w\<lparr>effects := effects w @ es\<rparr>"
  from many have "2 \<le> length (filter (\<lambda>x. field_name x = fst (snd c))
      (bi_sql_view_field_ids (self ?w')))" by simp
  then have "sync_column c ids' ?w' = (Inl ValueError, ?w')" by (rule sync_column_many)
  with run have "sync_columns (pre @ c # rest) [] w = (Inl ValueError, ?w')" by simp
  then have "reconcile (pre @ c # rest) w = (Inl ValueError, ?w')" by (simp add: reconcile_def)
  with fw show ?thesis by blast
qed

lemma reconcile_second_after_success:
  assumes inv: "synced cols [] ids w"
  shows "\<exists>es. reconcile cols (unlink_obsolete ids w) =
           ((if bi_sql_view_field_ids (self (unlink_obsolete ids w)) = []
             then Inl (UserError no_column_message) else Inr cols),
            (unlink_obsolete ids w)\<lparr>effects := effects (unlink_obsolete ids w) @ es\<rparr>)
           \<and> field_writes cols (bi_sql_view_field_ids (self (unlink_obsolete ids w))) es
           \<and> (\<forall>f \<in> set (bi_sql_view_field_ids (self (unlink_obsolete ids w))).
                 fold overwrite cols f = f)"
proof -
  let ?F = "bi_sql_view_field_ids (self w)"
  let ?N = "(\<lambda>c. fst (snd c)) ` set cols"
  let ?u = "unlink_obsolete ids w"
  let ?G = "bi_sql_view_field_ids (self ?u)"
  from inv have wf: "wf_fields w" and st: "settled cols ?F"
    and fx: "\<forall>f \<in> set ?F. fold overwrite cols f = f"
    by (simp_all add: synced_def)
  have G: "?G = filter (\<lambda>x. field_name x \<in> ?N) ?F" by (rule unlink_obsolete_synced [OF inv])
  have nu: "next_id ?u = next_id w" by (simp add: unlink_obsolete_def Let_def)
  have wfu: "wf_fields ?u"
    unfolding wf_fields_def G nu using wf by (simp add: wf_fields_def distinct_map_filter)
  have stu: "settled cols ?G" unfolding G using st by (simp add: settled_after_unlink)
  have fxu: "\<forall>f \<in> set ?G. fold overwrite cols f = f" unfolding G using fx by simp
  from second_run_fixed [OF wfu stu fxu, of "[]" "[]"] obtain ids' es where
    run: "sync_columns cols [] ?u = (Inr ids', ?u\<lparr>effects := effects ?u @ es\<rparr>)"
    and ids: "set ids' = set (matched_ids cols ?G)"
    and fw: "field_writes cols ?G es"
    by auto
  let ?v = "?u\<lparr>effects := effects ?u @ es\<rparr>"
  have all: "\<forall>x \<in> set ?G. field_id x \<in> set ids'"
    unfolding ids G by (simp add: matched_ids_def)
  then have keep: "filter (\<lambda>x. field_id x \<in> set ids') ?G = ?G"
    and drop: "filter (\<lambda>x. field_id x \<notin> set ids') ?G = []"
    by (simp_all add: filter_empty_conv)
  have un: "unlink_obsolete ids' ?v = ?v"
    using keep drop by (simp add: unlink_obsolete_def Let_def)
  have "reconcile cols ?u =
      ((if ?G = [] then Inl (UserError no_column_message) else Inr cols), ?v)"
    using run un by (simp add: reconcile_def Let_def)
  with fw fxu show ?thesis by blast
qed

text \<open>
  C8. Schema synchronization is idempotent. Run the reconciliation of
  \<open>_check_execution\<close> on a view whose fields are well-formed records, and run it again
  with the same columns on the state it left: the second run leaves the record of the
  view, and with it the collection of fields, as the first run left it, hands out no new
  identifier, and ends as the first did. Its effects are writes on fields only: no field
  is created and none is deleted. And when the names of the columns are distinct, as
  those of a view are, each write carries the sequence and the type the field already
  holds.
\<close>

theorem reconcile_idempotent:
  assumes wf: "wf_fields w"
    and first: "reconcile columns w = (r1, w1)"
    and second: "reconcile columns w1 = (r2, w2)"
  shows "self w2 = self w1 \<and> next_id w2 = next_id w1 \<and> r2 = r1
    \<and> (\<exists>es. effects w2 = effects w1 @ es
          \<and> (\<forall>e \<in> set es. \<exists>i s t. e = OrmWriteField i s t
                \<and> (distinct (map (\<lambda>c. fst (snd c)) columns) \<longrightarrow>
                     (\<exists>f \<in> set (bi_sql_view_field_ids (self w1)).
                        field_id f = i \<and> field_sequence f = s \<and> sql_type f = t))))"
proof -
  obtain ra wa where sa: "sync_columns columns [] w = (ra, wa)"
    by (cases "sync_columns columns [] w")
  note fr = first_run [OF wf sa]
  show ?thesis
  proof (cases ra)
    case (Inl e)
    with fr obtain pre c rest ids where ev: "e = ValueError"
      and cols: "columns = pre @ c # rest" and inv: "synced pre [] ids wa"
      and many: "2 \<le> length (filter (\<lambda>x. field_name x = fst (snd c))
                              (bi_sql_view_field_ids (self wa)))"
      by auto
    from first sa Inl have r1: "r1 = Inl e" and w1: "w1 = wa" by (simp_all add: reconcile_def)
    from reconcile_second_after_error [OF inv many, of rest] obtain es where
      rc: "reconcile (pre @ c # rest) wa = (Inl ValueError, wa\<lparr>effects := effects wa @ es\<rparr>)"
      and fw: "field_writes pre (bi_sql_view_field_ids (self wa)) es"
      by blast
    from second rc cols w1 have r2: "r2 = Inl ValueError"
      and w2: "w2 = wa\<lparr>effects := effects wa @ es\<rparr>" by simp_all
    from inv have fx: "\<forall>f \<in> set (bi_sql_view_field_ids (self wa)). fold overwrite pre f = f"
      by (simp add: synced_def)
    have dist: "distinct (map (\<lambda>c. fst (snd c)) pre)"
      if "distinct (map (\<lambda>c. fst (snd c)) columns)"
      using that cols by simp
    have "\<exists>i s t. e' = OrmWriteField i s t
                \<and> (distinct (map (\<lambda>c. fst (snd c)) columns) \<longrightarrow>
                     (\<exists>f \<in> set (bi_sql_view_field_ids (self w1)).
                        field_id f = i \<and> field_sequence f = s \<and> sql_type f = t))"
      if "e' \<in> set es" for e'
      using field_writes_same_values [OF fw fx that] dist w1 by blast
    moreover have "effects w2 = effects w1 @ es" using w1 w2 by simp
    moreover have "self w2 = self w1" "next_id w2 = next_id w1" "r2 = r1"
      using w1 w2 r1 r2 ev by simp_all
    ultimately show ?thesis by blast
  next
    case (Inr ids1)
    with fr have inv: "synced columns [] ids1 wa" by simp
    let ?u = "unlink_obsolete ids1 wa"
    from first sa Inr have w1: "w1 = ?u"
      and r1: "r1 = (if bi_sql_view_field_ids (self ?u) = []
                     then Inl (UserError no_column_message) else Inr columns)"
      by (auto simp: reconcile_def Let_def split: if_splits)
    from reconcile_second_after_success [OF inv] obtain es where
      rc: "reconcile columns ?u =
           ((if bi_sql_view_field_ids (self ?u) = []
             then Inl (UserError no_column_message) else Inr columns),
            ?u\<lparr>effects := effects ?u @ es\<rparr>)"
      and fw: "field_writes columns (bi_sql_view_field_ids (self ?u)) es"
      and fx: "\<forall>f \<in> set (bi_sql_view_field_ids (self ?u)). fold overwrite columns f = f"
      by blast
    from second rc w1 have r2: "r2 = (if bi_sql_view_field_ids (self ?u) = []
                     then Inl (UserError no_column_message) else Inr columns)"
      and w2: "w2 = ?u\<lparr>effects := effects ?u @ es\<rparr>" by simp_all
    have "\<exists>i s t. e' = OrmWriteField i s t
                \<and> (distinct (map (\<lambda>c. fst (snd c)) columns) \<longrightarrow>
                     (\<exists>f \<in> set (bi_sql_view_field_ids (self w1)).
                        field_id f = i \<and> field_sequence f = s \<and> sql_type f = t))"
      if "e' \<in> set es" for e'
      using field_writes_same_values [OF fw fx that] w1 by blast
    moreover have "effects w2 = effects w1 @ es" using w1 w2 by simp
    moreover have "self w2 = self w1" "next_id w2 = next_id w1" "r2 = r1"
      using w1 w2 r1 r2 by simp_all
    ultimately show ?thesis by blast
  qed
qed

theorem reconcile_idempotent_witness:
  "reconcile [(1, ''x_a'', ''integer''), (2, ''x_b'', ''text''), (3, ''c'', ''date'')]
     \<lparr>self = \<lparr>name = ''n'', query = ''SELECT 1 AS x_a, 2 AS x_b, 3 AS c'', state = draft,
          use_external_database = False, has_group_changed = False,
          technical_name = ''t'', is_materialized = True, view_size = None,
          bi_sql_view_field_ids = [\<lparr>field_id = 1, field_name = ''x_a'', field_sequence = 7, sql_type = ''text'',
            is_index = False, graph_type = Some ''row''\<rparr>,
           \<lparr>field_id = 2, field_name = ''x_old'', field_sequence = 2, sql_type = ''text'',
            is_index = False, graph_type = None\<rparr>],
          model_id = None, rule_id = None, cron_id = None,
          tree_view_id = None, graph_view_id = None, pivot_view_id = None,
          search_view_id = None, action_id = None, menu_id = None\<rparr>,
        effects = [], next_id = 3\<rparr>
   = (Inr [(1, ''x_a'', ''integer''), (2, ''x_b'', ''text''), (3, ''c'', ''date'')],
     \<lparr>self = \<lparr>name = ''n'', query = ''SELECT 1 AS x_a, 2 AS x_b, 3 AS c'', state = draft,
          use_external_database = False, has_group_changed = False,
          technical_name = ''t'', is_materialized = True, view_size = None,
          bi_sql_view_field_ids = [\<lparr>field_id = 1, field_name = ''x_a'', field_sequence = 1, sql_type = ''integer'',
            is_index = False, graph_type = Some ''row''\<rparr>,
           \<lparr>field_id = 3, field_name = ''x_b'', field_sequence = 2, sql_type = ''text'',
            is_index = False, graph_type = None\<rparr>],
          model_id = None, rule_id = None, cron_id = None,
          tree_view_id = None, graph_view_id = None, pivot_view_id = None,
          search_view_id = None, action_id = None, menu_id = None\<rparr>,
        effects = [OrmWriteField 1 1 ''integer'', OrmCreate ''bi.sql.view.field'' 3,
           OrmUnlink ''bi.sql.view.field'' 2], next_id = 4\<rparr>)
   \<and> reconcile [(1, ''x_a'', ''integer''), (2, ''x_b'', ''text''), (3, ''c'', ''date'')]
     \<lparr>self = \<lparr>name = ''n'', query = ''SELECT 1 AS x_a, 2 AS x_b, 3 AS c'', state = draft,
          use_external_database = False, has_group_changed = False,
          technical_name = ''t'', is_materialized = True, view_size = None,
          bi_sql_view_field_ids = [\<lparr>field_id = 1, field_name = ''x_a'', field_sequence = 1, sql_type = ''integer'',
            is_index = False, graph_type = Some ''row''\<rparr>,
           \<lparr>field_id = 3, field_name = ''x_b'', field_sequence = 2, sql_type = ''text'',
            is_index = False, graph_type = None\<rparr>],
          model_id = None, rule_id = None, cron_id = None,
          tree_view_id = None, graph_view_id = None, pivot_view_id = None,
          search_view_id = None, action_id = None, menu_id = None\<rparr>,
        effects = [OrmWriteField 1 1 ''integer'', OrmCreate ''bi.sql.view.field'' 3,
           OrmUnlink ''bi.sql.view.field'' 2], next_id = 4\<rparr>
   = (Inr [(1, ''x_a'', ''integer''), (2, ''x_b'', ''text''), (3, ''c'', ''date'')],
     \<lparr>self = \<lparr>name = ''n'', query = ''SELECT 1 AS x_a, 2 AS x_b, 3 AS c'', state = draft,
          use_external_database = False, has_group_changed = False,
          technical_name = ''t'', is_materialized = True, view_size = None,
          bi_sql_view_field_ids = [\<lparr>field_id = 1, field_name = ''x_a'', field_sequence = 1, sql_type = ''integer'',
            is_index = False, graph_type = Some ''row''\<rparr>,
           \<lparr>field_id = 3, field_name = ''x_b'', field_sequence = 2, sql_type = ''text'',
            is_index = False, graph_type = None\<rparr>],
          model_id = None, rule_id = None, cron_id = None,
          tree_view_id = None, graph_view_id = None, pivot_view_id = None,
          search_view_id = None, action_id = None, menu_id = None\<rparr>,
        effects = [OrmWriteField 1 1 ''integer'', OrmCreate ''bi.sql.view.field'' 3,
           OrmUnlink ''bi.sql.view.field'' 2,
           OrmWriteField 1 1 ''integer'', OrmWriteField 3 2 ''text''], next_id = 4\<rparr>)"
proof -
  let ?cols = "[(1, ''x_a'', ''integer''), (2, ''x_b'', ''text''), (3, ''c'', ''date'')] :: column list"
  let ?W0 = "\<lparr>self = \<lparr>name = ''n'', query = ''SELECT 1 AS x_a, 2 AS x_b, 3 AS c'', state = draft,
          use_external_database = False, has_group_changed = False,
          technical_name = ''t'', is_materialized = True, view_size = None,
          bi_sql_view_field_ids = [\<lparr>field_id = 1, field_name = ''x_a'', field_sequence = 7, sql_type = ''text'',
            is_index = False, graph_type = Some ''row''\<rparr>,
           \<lparr>field_id = 2, field_name = ''x_old'', field_sequence = 2, sql_type = ''text'',
            is_index = False, graph_type = None\<rparr>],
          model_id = None, rule_id = None, cron_id = None,
          tree_view_id = None, graph_view_id = None, pivot_view_id = None,
          search_view_id = None, action_id = None, menu_id = None\<rparr>,
        effects = [], next_id = 3\<rparr>"
  let ?W1 = "\<lparr>self = \<lparr>name = ''n'', query = ''SELECT 1 AS x_a, 2 AS x_b, 3 AS c'', state = draft,
          use_external_database = False, has_group_changed = False,
          technical_name = ''t'', is_materialized = True, view_size = None,
          bi_sql_view_field_ids = [\<lparr>field_id = 1, field_name = ''x_a'', field_sequence = 1, sql_type = ''integer'',
            is_index = False, graph_type = Some ''row''\<rparr>,
           \<lparr>field_id = 3, field_name = ''x_b'', field_sequence = 2, sql_type = ''text'',
            is_index = False, graph_type = None\<rparr>],
          model_id = None, rule_id = None, cron_id = None,
          tree_view_id = None, graph_view_id = None, pivot_view_id = None,
          search_view_id = None, action_id = None, menu_id = None\<rparr>,
        effects = [OrmWriteField 1 1 ''integer'', OrmCreate ''bi.sql.view.field'' 3,
           OrmUnlink ''bi.sql.view.field'' 2], next_id = 4\<rparr>"
  let ?W2 = "\<lparr>self = \<lparr>name = ''n'', query = ''SELECT 1 AS x_a, 2 AS x_b, 3 AS c'', state = draft,
          use_external_database = False, has_group_changed = False,
          technical_name = ''t'', is_materialized = True, view_size = None,
          bi_sql_view_field_ids = [\<lparr>field_id = 1, field_name = ''x_a'', field_sequence = 1, sql_type = ''integer'',
            is_index = False, graph_type = Some ''row''\<rparr>,
           \<lparr>field_id = 3, field_name = ''x_b'', field_sequence = 2, sql_type = ''text'',
            is_index = False, graph_type = None\<rparr>],
          model_id = None, rule_id = None, cron_id = None,
          tree_view_id = None, graph_view_id = None, pivot_view_id = None,
          search_view_id = None, action_id = None, menu_id = None\<rparr>,
        effects = [OrmWriteField 1 1 ''integer'', OrmCreate ''bi.sql.view.field'' 3,
           OrmUnlink ''bi.sql.view.field'' 2,
           OrmWriteField 1 1 ''integer'', OrmWriteField 3 2 ''text''], next_id = 4\<rparr>"
  have wf: "wf_fields ?W0" by (simp add: wf_fields_def)
  have a: "reconcile ?cols ?W0 = (Inr ?cols, ?W1)"
    by (simp add: reconcile_def sync_column_def unlink_obsolete_def new_view_field_def
        emit_def Let_def)
  have b: "reconcile ?cols ?W1 = (Inr ?cols, ?W2)"
    by (simp add: reconcile_def sync_column_def unlink_obsolete_def new_view_field_def
        emit_def Let_def)
  from reconcile_idempotent [OF wf a b] have "self ?W2 = self ?W1" by blast
  with a b show ?thesis by blast
qed

end
